theory Spec2Isabelle
  imports Main "HOL-Library.Sublist"
begin

section \<open>The report generator (lib/src/main.js)\<close>

text \<open>
  A shallow embedding of \<^verbatim>\<open>lib/src/main.js\<close>: the functions that decide where a
  report is saved (\<^verbatim>\<open>getTimestampFormat\<close>, \<^verbatim>\<open>getFilename\<close>, \<^verbatim>\<open>getOptions\<close>), the
  asset freshness check and copy (\<^verbatim>\<open>_shouldCopyAssets\<close>, \<^verbatim>\<open>copyAssets\<close>), and the
  flows that write the report (\<^verbatim>\<open>saveFile\<close>, \<^verbatim>\<open>prepare\<close>, \<^verbatim>\<open>create\<close>, \<^verbatim>\<open>createSync\<close>).

  A JavaScript string is a \<^typ>\<open>string\<close>: a list of code units, here those below 256.
  Everything the module reaches outside itself is explicit. What it only reads (the
  working directory, the clock, the package version, the library functions
  \<^verbatim>\<open>path.resolve\<close>, \<^verbatim>\<open>path.join\<close>, \<^verbatim>\<open>dateFormat\<close>, \<^verbatim>\<open>JSON.stringify\<close>, the React renderer
  and \<^verbatim>\<open>getMergedOptions\<close> of \<^verbatim>\<open>./options\<close>) is a field of the record \<open>env\<close>, and the
  theorems are stated for every \<open>env\<close>. What it changes (the files on disk, the files
  handed to the opener, the number of times the clock was read) is the record \<open>world\<close>,
  passed in and returned.
\<close>

subsection \<open>JavaScript values carried by the options\<close>

datatype jsval = JUndefined | JNull | JBool bool | JNum int | JStr string

text \<open>ToBoolean: what \<^verbatim>\<open>if (v)\<close>, \<^verbatim>\<open>v ? a : b\<close> and \<^verbatim>\<open>v && w\<close> test.\<close>

fun truthy :: "jsval \<Rightarrow> bool" where
  "truthy JUndefined = False"
| "truthy JNull = False"
| "truthy (JBool b) = b"
| "truthy (JNum n) = (n \<noteq> 0)"
| "truthy (JStr s) = (s \<noteq> [])"

subsection \<open>The regular expressions\<close>

text \<open>
  \<^verbatim>\<open>const fileExtRegex = /\.[^.]*?$/;\<close>
  The expression has no \<^verbatim>\<open>m\<close> flag, so \<^verbatim>\<open>$\<close> is the end of the string, and
  \<^verbatim>\<open>[^.]\<close> is any code unit but the dot. \<open>fileExtRegex_at s\<close> says that it matches at the
  start of \<open>s\<close> (and then it matches all of \<open>s\<close>); \<open>fileExtRegex_exec\<close> is the search from
  the left that \<^verbatim>\<open>String.prototype.replace\<close> runs: the text before the first match, and
  the match.
\<close>

definition fileExtRegex_at :: "string \<Rightarrow> bool" where
  "fileExtRegex_at s = (case s of [] \<Rightarrow> False | c # cs \<Rightarrow> c = CHR ''.'' \<and> CHR ''.'' \<notin> set cs)"

fun fileExtRegex_exec :: "string \<Rightarrow> (string \<times> string) option" where
  "fileExtRegex_exec [] = None"
| "fileExtRegex_exec (c # cs) =
     (if fileExtRegex_at (c # cs) then Some ([], c # cs)
      else (case fileExtRegex_exec cs of None \<Rightarrow> None | Some (p, m) \<Rightarrow> Some (c # p, m)))"

text \<open>\<^verbatim>\<open>s.replace(fileExtRegex, '')\<close>\<close>

definition stripFileExt :: "string \<Rightarrow> string" where
  "stripFileExt s = (case fileExtRegex_exec s of None \<Rightarrow> s | Some (p, m) \<Rightarrow> p)"

text \<open>\<^verbatim>\<open>s.replace(fileExtRegex, '{_###}$&')\<close>: in the replacement \<^verbatim>\<open>$&\<close> is the match.\<close>

definition insertUniquePlaceholder :: "string \<Rightarrow> string" where
  "insertUniquePlaceholder s =
     (case fileExtRegex_exec s of None \<Rightarrow> s | Some (p, m) \<Rightarrow> p @ ''{_###}'' @ m)"

text \<open>
  The class \<^verbatim>\<open>\s\<close> on the code units below 256: tab, line feed, vertical tab, form
  feed, carriage return, space and the no-break space.
\<close>

definition is_space :: "char \<Rightarrow> bool" where
  "is_space c = (of_char c \<in> {9, 10, 11, 12, 13, 32, 160 :: nat})"

text \<open>
  \<^verbatim>\<open>.replace(/(,\s*)|,|\s+/g, '_')\<close>: at each position the alternatives are tried in
  order; a comma matches the first one together with the white space after it, a white
  space unit matches the third one together with the white space after it, any other
  unit is kept, and the search goes on after the match.
\<close>

function replaceCommaSpace :: "string \<Rightarrow> string" where
  "replaceCommaSpace [] = []"
| "replaceCommaSpace (c # cs) =
     (if c = CHR '','' \<or> is_space c then CHR ''_'' # replaceCommaSpace (dropWhile is_space cs)
      else c # replaceCommaSpace cs)"
  by pat_completeness auto
termination
  by (relation "measure length") (auto simp: le_imp_less_Suc length_dropWhile_le)

text \<open>\<^verbatim>\<open>.replace(/\\|\//g, '-')\<close>\<close>

definition replaceSlashes :: "string \<Rightarrow> string" where
  "replaceSlashes s = map (\<lambda>c. if c = CHR 0x5C \<or> c = CHR ''/'' then CHR ''-'' else c) s"

text \<open>\<^verbatim>\<open>.replace(/:/g, '')\<close>\<close>

definition removeColons :: "string \<Rightarrow> string" where
  "removeColons s = filter (\<lambda>c. c \<noteq> CHR '':'') s"

text \<open>The chain of the three replacements of \<^verbatim>\<open>getFilename\<close>, in the order of the source.\<close>

definition sanitizeTimestamp :: "string \<Rightarrow> string" where
  "sanitizeTimestamp s = removeColons (replaceSlashes (replaceCommaSpace s))"

subsection \<open>Options, environment and world\<close>

text \<open>
  The options object after \<^verbatim>\<open>getMergedOptions\<close>, with the fields \<^verbatim>\<open>main.js\<close> reads.
  \<open>reportFilename\<close>, \<open>htmlFile\<close> and \<open>jsonFile\<close> are \<open>None\<close> when the property is
  undefined. \<open>reportDir\<close> and \<open>assetsDir\<close> are strings: \<^verbatim>\<open>path.resolve\<close> and \<^verbatim>\<open>path.join\<close>
  accept nothing else.
\<close>

record options =
  reportDir :: string
  reportFilename :: "string option"
  timestamp :: jsval
  saveJson :: jsval
  saveHtml :: jsval
  autoOpen :: jsval
  overwrite :: jsval
  inlineAssets :: jsval
  assetsDir :: string
  dev :: jsval
  htmlFile :: "string option"
  jsonFile :: "string option"

text \<open>A \<^verbatim>\<open>Date\<close>, by its fields in the time zone of the process.\<close>

record jsdate =
  year :: nat
  month :: nat
  day :: nat
  hours :: nat
  minutes :: nat
  seconds :: nat

text \<open>
  The report data: \<^verbatim>\<open>typeof data === 'object'\<close> holds for \<^verbatim>\<open>null\<close>, arrays and objects.
\<close>

datatype json =
  JsonNull
| JsonBool bool
| JsonNum int
| JsonStr string
| JsonArr "json list"
| JsonObj "(string \<times> json) list"

fun typeof_object :: "json \<Rightarrow> bool" where
  "typeof_object JsonNull = True"
| "typeof_object (JsonArr xs) = True"
| "typeof_object (JsonObj kvs) = True"
| "typeof_object v = False"

text \<open>
  What a failed operation carries: the path it failed on. \<open>TypeError\<close> is what a
  string method or \<^verbatim>\<open>path\<close> function throws on an undefined file name.
\<close>

datatype error = ReadError string | WriteError string | OpenError string | TypeError

text \<open>
  The environment: what the module reads and never changes.
  \<^item> \<open>cwd\<close> is \<^verbatim>\<open>process.cwd()\<close>, \<open>module_dir\<close> is \<^verbatim>\<open>__dirname\<close>, \<open>pkg_version\<close> is
    \<^verbatim>\<open>pkg.version\<close> of \<^verbatim>\<open>../package.json\<close>;
  \<^item> \<open>clock n\<close> is the time the \<open>n\<close>-th \<^verbatim>\<open>new Date()\<close> of the run reads;
  \<^item> \<open>path_resolve\<close>, \<open>path_join\<close> and \<open>path_relative\<close> are the functions of Node's
    \<^verbatim>\<open>path\<close>, on the list of their arguments;
  \<^item> \<open>dateFormat\<close> is the package \<^verbatim>\<open>dateformat\<close>, called with a date and the mask;
  \<^item> \<open>stringify v n\<close> is \<^verbatim>\<open>JSON.stringify(v, null, n)\<close> (\<open>n = 0\<close> for
    \<^verbatim>\<open>JSON.stringify(v)\<close>);
  \<^item> \<open>renderMainHTML\<close> is \<^verbatim>\<open>renderToStaticMarkup\<close> of the \<^verbatim>\<open>MainHTML\<close> element, by its
    properties \<^verbatim>\<open>assetsDir\<close>, \<^verbatim>\<open>data\<close>, \<^verbatim>\<open>options\<close>, \<^verbatim>\<open>styles\<close> and \<^verbatim>\<open>scripts\<close>;
  \<^item> \<open>getMergedOptions\<close> is the function of \<^verbatim>\<open>./options\<close>, on the user's options object
    (a map from property names to values);
  \<^item> \<open>opener_ok f\<close> says that the opener succeeds on the file \<open>f\<close>.
\<close>

record env =
  cwd :: string
  module_dir :: string
  pkg_version :: string
  clock :: "nat \<Rightarrow> jsdate"
  path_resolve :: "string list \<Rightarrow> string"
  path_join :: "string list \<Rightarrow> string"
  path_relative :: "string \<Rightarrow> string \<Rightarrow> string"
  dateFormat :: "jsdate \<Rightarrow> jsval \<Rightarrow> string"
  stringify :: "json \<Rightarrow> nat \<Rightarrow> string"
  renderMainHTML :: "string \<Rightarrow> json \<Rightarrow> options \<Rightarrow> string option \<Rightarrow> string option \<Rightarrow> string"
  getMergedOptions :: "(string \<Rightarrow> jsval option) \<Rightarrow> options"
  opener_ok :: "string \<Rightarrow> bool"

text \<open>
  The world: what the module changes.
  \<^item> \<open>files p\<close> is the content of the regular file at the path \<open>p\<close>, \<open>dirs p\<close> says
    that \<open>p\<close> is a directory, \<open>denied p\<close> that reading and writing \<open>p\<close> fail; a path is
    the name the process uses for it (a relative name and the absolute name of the same
    file are two paths here);
  \<^item> \<open>opened\<close> lists the files the opener was called on, in order;
  \<^item> \<open>ticks\<close> counts the times the clock was read.
\<close>

record world =
  files :: "string \<Rightarrow> string option"
  dirs :: "string \<Rightarrow> bool"
  denied :: "string \<Rightarrow> bool"
  opened :: "string list"
  ticks :: nat

subsection \<open>The primitives of the file system and the clock\<close>

text \<open>\<^verbatim>\<open>new Date()\<close>: reads the clock, which has moved on at the next reading.\<close>

definition newDate :: "env \<Rightarrow> world \<Rightarrow> jsdate \<times> world" where
  "newDate e w = (clock e (ticks w), w\<lparr>ticks := Suc (ticks w)\<rparr>)"

text \<open>
  Modelled from the spec: \<^verbatim>\<open>fs.existsSync(p)\<close> of Node. A file or a directory is there;
  it never throws.
\<close>

definition existsSync :: "world \<Rightarrow> string \<Rightarrow> bool" where
  "existsSync w p = (files w p \<noteq> None \<or> dirs w p)"

text \<open>
  \<^verbatim>\<open>function loadFile(filename) { return fs.readFileSync(filename, 'utf8'); }\<close>
  \<^verbatim>\<open>fs.readFileSync\<close> of Node is modelled from the spec: it returns the content of a
  regular file, and throws when the path is denied or is not a regular file.
\<close>

definition loadFile :: "world \<Rightarrow> string \<Rightarrow> error + string" where
  "loadFile w p =
     (if denied w p then Inl (ReadError p)
      else (case files w p of None \<Rightarrow> Inl (ReadError p) | Some c \<Rightarrow> Inr c))"

text \<open>The directories above a path: its prefixes that end before a separator.\<close>

definition parent_dirs :: "string \<Rightarrow> string list" where
  "parent_dirs p = [take i p. i \<leftarrow> [1..<length p], p ! i = CHR ''/'']"

text \<open>
  Modelled from the spec: \<^verbatim>\<open>fs.outputFile(p, data)\<close> and \<^verbatim>\<open>fs.outputFileSync(p, data)\<close> of
  the package fs-extra, which is not among the sources. The file is written whether it
  was there or not, and the directories above it are made. The result is the error and
  the world as it was, or the world with the file.
\<close>

definition outputFile :: "world \<Rightarrow> string \<Rightarrow> string \<Rightarrow> (error + unit) \<times> world" where
  "outputFile w p d =
     (if denied w p then (Inl (WriteError p), w)
      else (Inr (), w\<lparr>files := (files w)(p \<mapsto> d),
                        dirs := (\<lambda>q. dirs w q \<or> q \<in> set (parent_dirs p))\<rparr>))"

subsection \<open>The name of the report\<close>

text \<open>
  \<^verbatim>\<open>
  function getTimestampFormat(timestamp) {
    switch (timestamp) {
    case '':
    case 'true':
    case true:
      return 'isoDateTime';
    default:
      return timestamp;
    }
  }
  \<close>
\<close>

definition getTimestampFormat :: "jsval \<Rightarrow> jsval" where
  "getTimestampFormat t =
     (if t = JStr '''' \<or> t = JStr ''true'' \<or> t = JBool True then JStr ''isoDateTime'' else t)"

text \<open>
  The suffix \<^verbatim>\<open>ts\<close> of \<^verbatim>\<open>getFilename\<close>:
  \<^verbatim>\<open>
  let ts = '';
  if (timestamp !== false && timestamp !== 'false') {
    const format = getTimestampFormat(timestamp);
    ts = `_${dateFormat(new Date(), format)}`
      .replace(/(,\s*)|,|\s+/g, '_')
      .replace(/\\|\//g, '-')
      .replace(/:/g, '');
  }
  \<close>
\<close>

definition timestampSuffix :: "env \<Rightarrow> world \<Rightarrow> jsval \<Rightarrow> string \<times> world" where
  "timestampSuffix e w t =
     (if t \<noteq> JBool False \<and> t \<noteq> JStr ''false'' then
        (let format = getTimestampFormat t;
             (d, w') = newDate e w
         in (sanitizeTimestamp (CHR ''_'' # dateFormat e d format), w'))
      else ([], w))"

text \<open>
  \<^verbatim>\<open>
  function getFilename({ reportDir, reportFilename = 'mochawesome', timestamp }) {
    ...
    const filename = `${reportFilename.replace(fileExtRegex, '')}${ts}`;
    return path.resolve(process.cwd(), reportDir, filename);
  }
  \<close>
\<close>

definition getFilename :: "env \<Rightarrow> world \<Rightarrow> options \<Rightarrow> string \<times> world" where
  "getFilename e w opts =
     (let (ts, w') = timestampSuffix e w (timestamp opts);
          filename = stripFileExt (case reportFilename opts of None \<Rightarrow> ''mochawesome'' | Some f \<Rightarrow> f) @ ts
      in (path_resolve e [cwd e, reportDir opts, filename], w'))"

text \<open>
  \<^verbatim>\<open>
  function getOptions(opts) {
    const mergedOptions = getMergedOptions(opts || {});
    if (mergedOptions.saveJson) {
      mergedOptions.jsonFile = `${getFilename(mergedOptions)}.json`;
    }
    mergedOptions.htmlFile = `${getFilename(mergedOptions)}.html`;
    return mergedOptions;
  }
  \<close>
  The user's options are \<open>None\<close> when \<^verbatim>\<open>opts\<close> is undefined or null.
\<close>

definition getOptions :: "env \<Rightarrow> world \<Rightarrow> (string \<Rightarrow> jsval option) option \<Rightarrow> options \<times> world" where
  "getOptions e w opts =
     (let mergedOptions = getMergedOptions e (case opts of None \<Rightarrow> Map.empty | Some m \<Rightarrow> m);
          (withJson, w1) =
            (if truthy (saveJson mergedOptions) then
               (let (base, w') = getFilename e w mergedOptions
                in (mergedOptions\<lparr>jsonFile := Some (base @ ''.json'')\<rparr>, w'))
             else (mergedOptions, w));
          (base, w2) = getFilename e w1 withJson
      in (withJson\<lparr>htmlFile := Some (base @ ''.html'')\<rparr>, w2))"

subsection \<open>Assets\<close>

text \<open>\<^verbatim>\<open>const distDir = path.join(__dirname, '..', 'dist');\<close>\<close>

definition distDir :: "env \<Rightarrow> string" where
  "distDir e = path_join e [module_dir e, ''..'', ''dist'']"

text \<open>
  \<^verbatim>\<open>
  function getAssets() {
    return {
      styles: loadFile(path.join(distDir, 'app.inline.css')),
      scripts: loadFile(path.join(distDir, 'app.js'))
    };
  }
  \<close>
\<close>

definition getAssets :: "env \<Rightarrow> world \<Rightarrow> error + (string \<times> string)" where
  "getAssets e w =
     (case loadFile w (path_join e [distDir e, ''app.inline.css'']) of
        Inl err \<Rightarrow> Inl err
      | Inr styles \<Rightarrow>
          (case loadFile w (path_join e [distDir e, ''app.js'']) of
             Inl err \<Rightarrow> Inl err
           | Inr scripts \<Rightarrow> Inr (styles, scripts)))"

text \<open>
  \<^verbatim>\<open>/\d+\.\d+\.\d+/\<close>: \<^verbatim>\<open>\d\<close> is an ASCII digit. \<open>version_at s\<close> is the match at the
  start of \<open>s\<close>: each \<^verbatim>\<open>\d+\<close> takes every digit there is, and giving one back never
  helps, since what follows must be a dot. \<open>version_exec s\<close> is \<^verbatim>\<open>exec\<close>: the match at
  the first position that has one (\<^verbatim>\<open>appCssVersion[0]\<close>), or \<open>None\<close> for \<^verbatim>\<open>null\<close>.
\<close>

definition is_digit :: "char \<Rightarrow> bool" where
  "is_digit c = (48 \<le> (of_char c :: nat) \<and> (of_char c :: nat) \<le> 57)"

definition version_at :: "string \<Rightarrow> string option" where
  "version_at s =
     (let d1 = takeWhile is_digit s; r1 = dropWhile is_digit s in
      if d1 = [] then None
      else (case r1 of
              [] \<Rightarrow> None
            | c1 # s2 \<Rightarrow>
                (let d2 = takeWhile is_digit s2; r2 = dropWhile is_digit s2 in
                 if c1 \<noteq> CHR ''.'' \<or> d2 = [] then None
                 else (case r2 of
                         [] \<Rightarrow> None
                       | c2 # s3 \<Rightarrow>
                           (let d3 = takeWhile is_digit s3 in
                            if c2 \<noteq> CHR ''.'' \<or> d3 = [] then None
                            else Some (d1 @ ''.'' @ d2 @ ''.'' @ d3))))))"

fun version_exec :: "string \<Rightarrow> string option" where
  "version_exec [] = None"
| "version_exec (c # cs) =
     (case version_at (c # cs) of Some v \<Rightarrow> Some v | None \<Rightarrow> version_exec cs)"

text \<open>
  \<^verbatim>\<open>
  function _shouldCopyAssets(assetsDir) {
    if (!fs.existsSync(assetsDir)) {
      return true;
    }
    try {
      const appCss = loadFile(path.join(assetsDir, 'app.css'));
      const appCssVersion = /\d+\.\d+\.\d+/.exec(appCss);
      if (!appCssVersion || appCssVersion[0] !== pkg.version) {
        return true;
      }
    } catch (e) {
      return true;
    }
    return false;
  }
  \<close>
\<close>

definition shouldCopyAssets :: "env \<Rightarrow> world \<Rightarrow> string \<Rightarrow> bool" where
  "shouldCopyAssets e w dir =
     (if \<not> existsSync w dir then True
      else (case loadFile w (path_join e [dir, ''app.css'']) of
              Inl err \<Rightarrow> True
            | Inr appCss \<Rightarrow>
                (case version_exec appCss of
                   None \<Rightarrow> True
                 | Some v \<Rightarrow> if v \<noteq> pkg_version e then True else False)))"

text \<open>\<^verbatim>\<open>src => !/inline/.test(src)\<close>: the text \<^verbatim>\<open>inline\<close> stands nowhere in the path.\<close>

definition notInline :: "string \<Rightarrow> bool" where
  "notInline src = (\<not> sublist ''inline'' src)"

text \<open>\<open>path_below d q\<close>: the path of \<open>q\<close> from the directory \<open>d\<close>, when \<open>q\<close> is below \<open>d\<close>.\<close>

definition path_below :: "string \<Rightarrow> string \<Rightarrow> string option" where
  "path_below d q =
     (if prefix (d @ ''/'') q \<and> length d + 1 < length q then Some (drop (length d + 1) q)
      else None)"

text \<open>
  The paths the copy asks the filter about on its way to the entry at \<open>rel\<close> below
  \<open>src\<close>: the source directory, every directory between, and the entry.
\<close>

definition visited :: "string \<Rightarrow> string \<Rightarrow> string list" where
  "visited src rel = src # map (\<lambda>d. src @ ''/'' @ d) (parent_dirs rel @ [rel])"

text \<open>
  Modelled from the spec: \<^verbatim>\<open>fs.copySync(src, dest, { filter })\<close> of the package
  fs-extra, which is not among the sources. It copies the directory \<open>src\<close> to \<open>dest\<close>
  entry by entry; an entry the filter refuses is left out with everything below it
  (\<open>copied src keep rel\<close> says that the entry at \<open>rel\<close> is not left out); a copied file
  replaces the file at its destination. A source that is not a readable directory, or a
  destination that cannot be written, is an error and nothing is copied.
\<close>

definition copied :: "string \<Rightarrow> (string \<Rightarrow> bool) \<Rightarrow> string \<Rightarrow> bool" where
  "copied src keep rel = list_all keep (visited src rel)"

definition copySync ::
  "world \<Rightarrow> string \<Rightarrow> string \<Rightarrow> (string \<Rightarrow> bool) \<Rightarrow> (error + unit) \<times> world" where
  "copySync w src dest keep =
     (if \<not> dirs w src \<or> denied w src then (Inl (ReadError src), w)
      else if \<not> keep src then (Inr (), w)
      else if denied w dest then (Inl (WriteError dest), w)
      else (Inr (),
        w\<lparr>files := (\<lambda>q. case path_below dest q of
                          None \<Rightarrow> files w q
                        | Some rel \<Rightarrow>
                            (case files w (src @ ''/'' @ rel) of
                               None \<Rightarrow> files w q
                             | Some c \<Rightarrow> if copied src keep rel then Some c else files w q)),
          dirs := (\<lambda>q. dirs w q \<or> q = dest \<or> q \<in> set (parent_dirs dest) \<or>
                        (case path_below dest q of
                           None \<Rightarrow> False
                         | Some rel \<Rightarrow> dirs w (src @ ''/'' @ rel) \<and> copied src keep rel))\<rparr>))"

text \<open>
  \<^verbatim>\<open>
  function copyAssets({ assetsDir }) {
    if (_shouldCopyAssets(assetsDir)) {
      fs.copySync(distDir, assetsDir, {
        filter: src => !/inline/.test(src)
      });
    }
  }
  \<close>
\<close>

definition copyAssets :: "env \<Rightarrow> world \<Rightarrow> options \<Rightarrow> (error + unit) \<times> world" where
  "copyAssets e w opts =
     (if shouldCopyAssets e w (assetsDir opts) then copySync w (distDir e) (assetsDir opts) notInline
      else (Inr (), w))"

subsection \<open>Rendering\<close>

text \<open>
  \<^verbatim>\<open>
  function renderHtml(data, reportOptions, styles, scripts) {
    const { reportDir, assetsDir } = reportOptions;
    const relativeAssetsDir = path.relative(reportDir, assetsDir);
    return render(React.createElement(MainHTML, {
      assetsDir: relativeAssetsDir, data, options: reportOptions, styles, scripts
    }));
  }
  \<close>
\<close>

definition renderHtml :: "env \<Rightarrow> json \<Rightarrow> options \<Rightarrow> string option \<Rightarrow> string option \<Rightarrow> string" where
  "renderHtml e data reportOptions styles scripts =
     renderMainHTML e (path_relative e (reportDir reportOptions) (assetsDir reportOptions))
       data reportOptions styles scripts"

text \<open>
  \<^verbatim>\<open>
  function prepare(reportData, opts) {
    let data = reportData;
    if (typeof data === 'object') {
      data = JSON.stringify(reportData);
    }
    const reportOptions = getOptions(opts);
    let assets = {};
    if (!reportOptions.dev) {
      if (reportOptions.inlineAssets) {
        assets = getAssets(reportOptions);
      } else {
        copyAssets(reportOptions);
      }
    }
    const { styles, scripts } = assets;
    const html = `<!doctype html>\n${renderHtml(data, reportOptions, styles, scripts)}`;
    return { html, reportOptions };
  }
  \<close>
  The assets are \<open>None\<close> for the empty object, whose \<^verbatim>\<open>styles\<close> and \<^verbatim>\<open>scripts\<close> are
  undefined.
\<close>

definition prepare ::
  "env \<Rightarrow> world \<Rightarrow> json \<Rightarrow> (string \<Rightarrow> jsval option) option \<Rightarrow> (error + (string \<times> options)) \<times> world" where
  "prepare e w reportData opts =
     (let data = (if typeof_object reportData then JsonStr (stringify e reportData 0) else reportData);
          (reportOptions, w1) = getOptions e w opts;
          (assets, w2) =
            (if \<not> truthy (dev reportOptions) then
               (if truthy (inlineAssets reportOptions) then
                  (case getAssets e w1 of Inl err \<Rightarrow> (Inl err, w1) | Inr a \<Rightarrow> (Inr (Some a), w1))
                else
                  (case copyAssets e w1 reportOptions of
                     (Inl err, w') \<Rightarrow> (Inl err, w')
                   | (Inr u, w') \<Rightarrow> (Inr None, w')))
             else (Inr None, w1))
      in (case assets of
            Inl err \<Rightarrow> (Inl err, w2)
          | Inr a \<Rightarrow>
              (Inr (''<!doctype html>'' @ [CHR 0x0A] @
                      renderHtml e data reportOptions (map_option fst a) (map_option snd a),
                    reportOptions), w2)))"

subsection \<open>Saving and opening\<close>

text \<open>
  \<open>show_nat n\<close> is \<^verbatim>\<open>n + ''\<close>, the decimal digits of \<open>n\<close>; \<open>padNum n width\<close> puts
  zeros before them up to the width, and keeps a longer number as it is.
\<close>

definition digit_char :: "nat \<Rightarrow> char" where
  "digit_char d = ''0123456789'' ! d"

fun show_nat :: "nat \<Rightarrow> string" where
  "show_nat n = (if n < 10 then [digit_char n] else show_nat (n div 10) @ [digit_char (n mod 10)])"

declare show_nat.simps [simp del]

definition padNum :: "nat \<Rightarrow> nat \<Rightarrow> string" where
  "padNum n width = replicate (width - length (show_nat n)) (CHR ''0'') @ show_nat n"

text \<open>
  The placeholder of a unique-name pattern: an opening brace, text without \<^verbatim>\<open>#\<close> and
  braces, one or more \<^verbatim>\<open>#\<close> (their number is the width), text without \<^verbatim>\<open>#\<close> and
  braces, a closing brace. \<open>placeholder_at s\<close> reads one at the start of \<open>s\<close>;
  \<open>parsePattern\<close> splits a pattern at its last placeholder.
\<close>

record unique_parts =
  p_head :: string
  p_padLeft :: string
  p_pad :: nat
  p_padRight :: string
  p_tail :: string

definition plain_char :: "char \<Rightarrow> bool" where
  "plain_char c = (c \<noteq> CHR ''#'' \<and> c \<noteq> CHR ''{'' \<and> c \<noteq> CHR ''}'')"

definition is_hash :: "char \<Rightarrow> bool" where
  "is_hash c = (c = CHR ''#'')"

definition placeholder_at :: "string \<Rightarrow> unique_parts option" where
  "placeholder_at s =
     (case s of
        [] \<Rightarrow> None
      | c # r \<Rightarrow>
          (let left = takeWhile plain_char r; r1 = dropWhile plain_char r;
               hashes = takeWhile is_hash r1; r2 = dropWhile is_hash r1;
               right = takeWhile plain_char r2; r3 = dropWhile plain_char r2
           in if c \<noteq> CHR ''{'' \<or> hashes = [] then None
              else (case r3 of
                      [] \<Rightarrow> None
                    | c' # t \<Rightarrow>
                        if c' = CHR ''}'' then
                          Some \<lparr>p_head = [], p_padLeft = left, p_pad = length hashes,
                                p_padRight = right, p_tail = t\<rparr>
                        else None)))"

fun parsePattern :: "string \<Rightarrow> unique_parts option" where
  "parsePattern [] = None"
| "parsePattern (c # cs) =
     (case parsePattern cs of
        Some parts \<Rightarrow> Some (parts\<lparr>p_head := c # p_head parts\<rparr>)
      | None \<Rightarrow> placeholder_at (c # cs))"

text \<open>The \<open>n\<close>-th name of a pattern: the name without the placeholder first.\<close>

definition uniqueName :: "unique_parts \<Rightarrow> nat \<Rightarrow> string" where
  "uniqueName parts n =
     (if n = 0 then p_head parts @ p_tail parts
      else p_head parts @ p_padLeft parts @ padNum n (p_pad parts) @ p_padRight parts @ p_tail parts)"

text \<open>
  The search for a free name: it goes on while the name is taken, and has no bound.
  \<open>None\<close> is the search that never ends.
\<close>

partial_function (option) firstFree :: "(nat \<Rightarrow> string) \<Rightarrow> (string \<Rightarrow> bool) \<Rightarrow> nat \<Rightarrow> nat option" where
  "firstFree name taken n = (if taken (name n) then firstFree name taken (Suc n) else Some n)"

declare firstFree.simps [code]

text \<open>
  Modelled from the spec: \<^verbatim>\<open>fsu.writeFileUnique(pattern, data, { force: true }, cb)\<close>
  of the package fsu, which is not among the sources. It searches for the first name of
  the pattern that collides with no existing file or directory, writes the data there,
  making the directories above it, and hands the name it used to the callback. A
  pattern without a placeholder is written as an ordinary file.
\<close>

definition writeFileUnique ::
  "world \<Rightarrow> string \<Rightarrow> string \<Rightarrow> ((error + string) \<times> world) option" where
  "writeFileUnique w pattern d =
     (case parsePattern pattern of
        None \<Rightarrow>
          Some (case outputFile w pattern d of
                  (Inl err, w') \<Rightarrow> (Inl err, w')
                | (Inr u, w') \<Rightarrow> (Inr pattern, w'))
      | Some parts \<Rightarrow>
          (case firstFree (uniqueName parts) (existsSync w) 0 of
             None \<Rightarrow> None
           | Some n \<Rightarrow>
               Some (case outputFile w (uniqueName parts n) d of
                       (Inl err, w') \<Rightarrow> (Inl err, w')
                     | (Inr u, w') \<Rightarrow> (Inr (uniqueName parts n), w'))))"

text \<open>
  \<^verbatim>\<open>
  function saveFile(filename, data, overwrite) {
    if (overwrite) {
      return fs.outputFile(filename, data)
        .then(() => filename);
    } else {
      return new Promise((resolve, reject) => {
        fsu.writeFileUnique(
          filename.replace(fileExtRegex, '{_###}$&'),
          data,
          { force: true },
          (err, savedFile) => err === null ? resolve(savedFile) : reject(err)
        );
      });
    }
  }
  \<close>
  The result is \<open>Inr\<close> the name for a promise that resolves and \<open>Inl\<close> the error for one
  that rejects, with the world it leaves; \<open>None\<close> is a promise that never settles. An
  undefined file name (\<open>None\<close>) is a \<open>TypeError\<close>.
\<close>

definition saveFile ::
  "world \<Rightarrow> string option \<Rightarrow> string \<Rightarrow> jsval \<Rightarrow> ((error + string) \<times> world) option" where
  "saveFile w filename d overwrite_opt =
     (case filename of
        None \<Rightarrow> Some (Inl TypeError, w)
      | Some f \<Rightarrow>
          if truthy overwrite_opt then
            Some (case outputFile w f d of
                    (Inl err, w') \<Rightarrow> (Inl err, w')
                  | (Inr u, w') \<Rightarrow> (Inr f, w'))
          else writeFileUnique w (insertUniquePlaceholder f) d)"

text \<open>
  \<^verbatim>\<open>
  function openFile(filename) {
    return new Promise((resolve, reject) => {
      opener(filename, null, err => err === null ? resolve(filename) : reject(err));
    });
  }
  \<close>
\<close>

definition openFile :: "env \<Rightarrow> world \<Rightarrow> string \<Rightarrow> (error + string) \<times> world" where
  "openFile e w f =
     (if opener_ok e f then Inr f else Inl (OpenError f), w\<lparr>opened := opened w @ [f]\<rparr>)"

subsection \<open>Creating the report\<close>

text \<open>
  \<^verbatim>\<open>
  function create(data, opts) {
    const { html, reportOptions } = prepare(data, opts);
    const { saveJson, saveHtml, autoOpen, overwrite, jsonFile, htmlFile } = reportOptions;
    const savePromises = [];
    savePromises.push(saveHtml !== false
      ? saveFile(htmlFile, html, overwrite)
        .then(savedHtml => (autoOpen && openFile(savedHtml)) || savedHtml)
      : null);
    savePromises.push(saveJson
      ? saveFile(jsonFile, JSON.stringify(data, null, 2), overwrite)
      : null);
    return Promise.all(savePromises);
  }
  \<close>
  Both saves are started before either settles; they write different files, and the
  model runs the HTML save, the JSON save and then the opener. \<open>arrayEntry\<close> makes the
  entry of \<^verbatim>\<open>savePromises\<close> from a save (\<open>None\<close> inside \<open>Inr\<close> is the entry \<^verbatim>\<open>null\<close>),
  and \<open>promiseAll\<close> is \<^verbatim>\<open>Promise.all\<close> on the two entries once they have settled. The
  result is \<open>Inr\<close> the pair of the two results when the promise resolves, and \<open>Inl\<close> the
  error when it rejects or \<^verbatim>\<open>prepare\<close> throws.
\<close>

definition arrayEntry ::
  "((error + string) \<times> world) option \<Rightarrow> ((error + string option) \<times> world) option" where
  "arrayEntry p = map_option (\<lambda>(r, w). (map_sum id Some r, w)) p"

definition promiseAll ::
  "error + string option \<Rightarrow> error + string option \<Rightarrow> error + (string option \<times> string option)" where
  "promiseAll r1 r2 =
     (case r1 of
        Inl err \<Rightarrow> Inl err
      | Inr h \<Rightarrow> (case r2 of Inl err \<Rightarrow> Inl err | Inr j \<Rightarrow> Inr (h, j)))"

definition create ::
  "env \<Rightarrow> world \<Rightarrow> json \<Rightarrow> (string \<Rightarrow> jsval option) option \<Rightarrow>
   ((error + (string option \<times> string option)) \<times> world) option" where
  "create e w data opts =
     (case prepare e w data opts of
        (Inl err, w1) \<Rightarrow> Some (Inl err, w1)
      | (Inr (html, reportOptions), w1) \<Rightarrow>
          (case (if saveHtml reportOptions \<noteq> JBool False
                 then arrayEntry (saveFile w1 (htmlFile reportOptions) html (overwrite reportOptions))
                 else Some (Inr None, w1)) of
             None \<Rightarrow> None
           | Some (savedHtml, w2) \<Rightarrow>
               (case (if truthy (saveJson reportOptions)
                      then arrayEntry (saveFile w2 (jsonFile reportOptions) (stringify e data 2)
                                         (overwrite reportOptions))
                      else Some (Inr None, w2)) of
                  None \<Rightarrow> None
                | Some (savedJson, w3) \<Rightarrow>
                    (let (htmlResult, w4) =
                           (case savedHtml of
                              Inr (Some f) \<Rightarrow>
                                if truthy (autoOpen reportOptions)
                                then (case openFile e w3 f of (r, w') \<Rightarrow> (map_sum id Some r, w'))
                                else (savedHtml, w3)
                            | _ \<Rightarrow> (savedHtml, w3))
                     in Some (promiseAll htmlResult savedJson, w4)))))"

text \<open>
  \<^verbatim>\<open>
  function createSync(data, opts) {
    const { html, reportOptions } = prepare(data, opts);
    const { autoOpen, htmlFile } = reportOptions;
    fs.outputFileSync(htmlFile, html);
    if (autoOpen) opener(htmlFile);
  }
  \<close>
  The opener is called without a callback: the call is made, and what becomes of it is
  not waited for.
\<close>

definition createSync ::
  "env \<Rightarrow> world \<Rightarrow> json \<Rightarrow> (string \<Rightarrow> jsval option) option \<Rightarrow> (error + unit) \<times> world" where
  "createSync e w data opts =
     (case prepare e w data opts of
        (Inl err, w1) \<Rightarrow> (Inl err, w1)
      | (Inr (html, reportOptions), w1) \<Rightarrow>
          (case htmlFile reportOptions of
             None \<Rightarrow> (Inl TypeError, w1)
           | Some f \<Rightarrow>
               (case outputFile w1 f html of
                  (Inl err, w2) \<Rightarrow> (Inl err, w2)
                | (Inr u, w2) \<Rightarrow>
                    (Inr (), if truthy (autoOpen reportOptions)
                             then w2\<lparr>opened := opened w2 @ [f]\<rparr> else w2))))"

subsection \<open>An environment to run the functions in\<close>

text \<open>
  The theorems below hold for every environment. To evaluate the functions on concrete
  inputs, \<open>posix_env\<close> fills the fields in: the POSIX functions of \<^verbatim>\<open>path\<close> on absolute
  working directories, the masks \<^verbatim>\<open>isoDateTime\<close>, \<^verbatim>\<open>isoDate\<close> and \<^verbatim>\<open>isoTime\<close> of
  \<^verbatim>\<open>dateformat\<close> (in UTC; any other mask stands for itself, as text without mask
  characters does), \<^verbatim>\<open>JSON.stringify\<close> on values whose strings need no escape other than
  the quote, the backslash and the line feed, and a renderer that prints its data.
\<close>

fun split_path :: "string \<Rightarrow> string list" where
  "split_path [] = [[]]"
| "split_path (c # cs) =
     (if c = CHR ''/'' then [] # split_path cs
      else (case split_path cs of [] \<Rightarrow> [[c]] | s # ss \<Rightarrow> (c # s) # ss))"

text \<open>
  The segments of a path, normalised: empty segments and \<^verbatim>\<open>.\<close> go, \<^verbatim>\<open>..\<close> takes the
  segment before it (the stack \<open>acc\<close> holds the segments kept so far, last first).
\<close>

fun normalize_segments :: "string list \<Rightarrow> string list \<Rightarrow> string list" where
  "normalize_segments acc [] = rev acc"
| "normalize_segments acc (s # ss) =
     (if s = [] \<or> s = ''.'' then normalize_segments acc ss
      else if s = ''..'' then normalize_segments (tl acc) ss
      else normalize_segments (s # acc) ss)"

definition join_paths :: "string list \<Rightarrow> string" where
  "join_paths ps =
     foldl (\<lambda>acc p. if p = [] then acc else if acc = [] then p else acc @ ''/'' @ p) [] ps"

definition posix_join :: "string list \<Rightarrow> string" where
  "posix_join ps =
     (let p = join_paths ps;
          segs = normalize_segments [] (split_path p);
          body = join_paths segs
      in if p = [] then ''.''
         else if hd p = CHR ''/'' then CHR ''/'' # body
         else if body = [] then ''.'' else body)"

definition posix_resolve :: "string list \<Rightarrow> string" where
  "posix_resolve ps =
     posix_join [foldl (\<lambda>acc p. if p \<noteq> [] \<and> hd p = CHR ''/'' then p
                                 else if p = [] then acc else acc @ ''/'' @ p) [] ps]"

definition posix_relative :: "string \<Rightarrow> string \<Rightarrow> string" where
  "posix_relative a b = (case path_below a b of None \<Rightarrow> b | Some rel \<Rightarrow> rel)"

definition iso_date :: "jsdate \<Rightarrow> string" where
  "iso_date d = padNum (year d) 4 @ ''-'' @ padNum (month d) 2 @ ''-'' @ padNum (day d) 2"

definition iso_time :: "jsdate \<Rightarrow> string" where
  "iso_time d = padNum (hours d) 2 @ '':'' @ padNum (minutes d) 2 @ '':'' @ padNum (seconds d) 2"

definition utc_dateFormat :: "jsdate \<Rightarrow> jsval \<Rightarrow> string" where
  "utc_dateFormat d fmt =
     (if fmt = JStr ''isoDateTime'' then iso_date d @ ''T'' @ iso_time d @ ''+0000''
      else if fmt = JStr ''isoDate'' then iso_date d
      else if fmt = JStr ''isoTime'' then iso_time d
      else (case fmt of JStr m \<Rightarrow> m | _ \<Rightarrow> iso_date d @ '' '' @ iso_time d))"

definition quote_json :: "string \<Rightarrow> string" where
  "quote_json s =
     [CHR 0x22] @
     concat (map (\<lambda>c. if c = CHR 0x22 then [CHR 0x5C, CHR 0x22]
                       else if c = CHR 0x5C then [CHR 0x5C, CHR 0x5C]
                       else if c = CHR 0x0A then [CHR 0x5C, CHR ''n'']
                       else [c]) s) @
     [CHR 0x22]"

definition show_int :: "int \<Rightarrow> string" where
  "show_int i = (if i < 0 then CHR ''-'' # show_nat (nat (- i)) else show_nat (nat i))"

definition join_with :: "string \<Rightarrow> string list \<Rightarrow> string" where
  "join_with sep xs = (case xs of [] \<Rightarrow> [] | x # r \<Rightarrow> x @ concat (map (\<lambda>y. sep @ y) r))"

text \<open>
  \<open>json_text n depth v\<close>: the text of \<open>v\<close> with \<open>n\<close> spaces of indentation for each level
  (none, and no line breaks, when \<open>n = 0\<close>), \<open>depth\<close> levels deep.
\<close>

definition json_lines :: "nat \<Rightarrow> nat \<Rightarrow> string \<Rightarrow> string \<Rightarrow> string list \<Rightarrow> string" where
  "json_lines n depth opening closing items =
     (if items = [] then opening @ closing
      else if n = 0 then opening @ join_with '','' items @ closing
      else opening @ [CHR 0x0A] @ replicate (n * Suc depth) (CHR '' '') @
           join_with ('','' @ [CHR 0x0A] @ replicate (n * Suc depth) (CHR '' '')) items @
           [CHR 0x0A] @ replicate (n * depth) (CHR '' '') @ closing)"

fun json_text :: "nat \<Rightarrow> nat \<Rightarrow> json \<Rightarrow> string" where
  "json_text n depth JsonNull = ''null''"
| "json_text n depth (JsonBool b) = (if b then ''true'' else ''false'')"
| "json_text n depth (JsonNum i) = show_int i"
| "json_text n depth (JsonStr s) = quote_json s"
| "json_text n depth (JsonArr xs) =
     json_lines n depth ''['' '']'' (map (json_text n (Suc depth)) xs)"
| "json_text n depth (JsonObj kvs) =
     json_lines n depth ''{'' ''}''
       (map (\<lambda>kv. quote_json (fst kv) @ (if n = 0 then '':'' else '': '') @
                    json_text n (Suc depth) (snd kv)) kvs)"

definition plain_render :: "string \<Rightarrow> json \<Rightarrow> options \<Rightarrow> string option \<Rightarrow> string option \<Rightarrow> string" where
  "plain_render assets data opts styles scripts =
     ''<html><body data-raw='' @ json_text 0 0 data @ ''></body></html>''"

text \<open>
  Modelled from the spec: \<^verbatim>\<open>getMergedOptions\<close> of \<^verbatim>\<open>./options\<close>, which is not among the
  sources. The user's options are merged over a fixed set of defaults; the report file
  name defaults to \<^verbatim>\<open>mochawesome\<close>, and saving the HTML is on by default.
\<close>

definition str_option :: "(string \<Rightarrow> jsval option) \<Rightarrow> string \<Rightarrow> string \<Rightarrow> string" where
  "str_option m k dflt = (case m k of Some (JStr s) \<Rightarrow> s | _ \<Rightarrow> dflt)"

definition val_option :: "(string \<Rightarrow> jsval option) \<Rightarrow> string \<Rightarrow> jsval \<Rightarrow> jsval" where
  "val_option m k dflt = (case m k of Some v \<Rightarrow> (if v = JUndefined then dflt else v) | None \<Rightarrow> dflt)"

definition default_getMergedOptions :: "(string \<Rightarrow> jsval option) \<Rightarrow> options" where
  "default_getMergedOptions m =
     \<lparr>reportDir = str_option m ''reportDir'' ''mochawesome-report'',
      reportFilename = Some (str_option m ''reportFilename'' ''mochawesome''),
      timestamp = val_option m ''timestamp'' (JBool False),
      saveJson = val_option m ''saveJson'' (JBool False),
      saveHtml = val_option m ''saveHtml'' (JBool True),
      autoOpen = val_option m ''autoOpen'' (JBool False),
      overwrite = val_option m ''overwrite'' (JBool True),
      inlineAssets = val_option m ''inlineAssets'' (JBool False),
      assetsDir = str_option m ''assetsDir''
                    (str_option m ''reportDir'' ''mochawesome-report'' @ ''/assets''),
      dev = val_option m ''dev'' (JBool False),
      htmlFile = None,
      jsonFile = None\<rparr>"

text \<open>A clock that reads 2016-11-03 12:30:59 first and is one second on at each reading.\<close>

definition ticking_clock :: "nat \<Rightarrow> jsdate" where
  "ticking_clock n =
     \<lparr>year = 2016, month = 11, day = 3, hours = 12,
      minutes = 30 + (59 + n) div 60, seconds = (59 + n) mod 60\<rparr>"

definition posix_env :: env where
  "posix_env =
     \<lparr>cwd = ''/work'', module_dir = ''/pkg/lib'', pkg_version = ''3.1.1'',
      clock = ticking_clock,
      path_resolve = posix_resolve, path_join = posix_join, path_relative = posix_relative,
      dateFormat = utc_dateFormat, stringify = (\<lambda>v n. json_text n 0 v),
      renderMainHTML = plain_render, getMergedOptions = default_getMergedOptions,
      opener_ok = (\<lambda>f. True)\<rparr>"

text \<open>A disk that holds the package's assets and nothing else.\<close>

definition dist_files :: "string \<Rightarrow> string option" where
  "dist_files =
     [''/pkg/dist/app.css'' \<mapsto> ''/*! mochawesome-report-generator 3.1.1 */ body{}'',
      ''/pkg/dist/app.inline.css'' \<mapsto> ''body{margin:0}'',
      ''/pkg/dist/app.js'' \<mapsto> ''void 0;'']"

definition fresh_world :: world where
  "fresh_world =
     \<lparr>files = dist_files,
      dirs = (\<lambda>p. p \<in> set [''/'', ''/pkg'', ''/pkg/lib'', ''/pkg/dist'', ''/work'']),
      denied = (\<lambda>p. False), opened = [], ticks = 0\<rparr>"

subsection \<open>What the statements below speak of\<close>

text \<open>
  The words of the specification for the file name without its extension: the name up
  to its last dot, and the whole name when it has no dot. The function of the source is
  \<open>stripFileExt\<close>; the two are compared below.
\<close>

definition withoutExtension :: "string \<Rightarrow> string" where
  "withoutExtension f =
     (if CHR ''.'' \<in> set f then rev (tl (dropWhile (\<lambda>c. c \<noteq> CHR ''.'') (rev f))) else f)"

text \<open>
  The words of the specification for the version in the stylesheet. \<open>is_version v\<close>: the
  text \<open>v\<close> is of the form \<^verbatim>\<open>\d+\.\d+\.\d+\<close>. \<open>version_occurs s k v\<close>: such a \<open>v\<close> stands in
  \<open>s\<close> at the position \<open>k\<close>. \<open>first_version s v\<close>: \<open>v\<close> is the first such match, the one
  at the least position and the longest one there.
\<close>

definition is_version :: "string \<Rightarrow> bool" where
  "is_version v =
     (\<exists>a b c. v = a @ ''.'' @ b @ ''.'' @ c \<and> a \<noteq> [] \<and> b \<noteq> [] \<and> c \<noteq> [] \<and>
        list_all is_digit (a @ b @ c))"

definition version_occurs :: "string \<Rightarrow> nat \<Rightarrow> string \<Rightarrow> bool" where
  "version_occurs s k v = (is_version v \<and> prefix v (drop k s))"

definition first_version :: "string \<Rightarrow> string \<Rightarrow> bool" where
  "first_version s v =
     (\<exists>k. version_occurs s k v \<and>
        (\<forall>k' v'. version_occurs s k' v' \<longrightarrow> k \<le> k' \<and> (k' = k \<longrightarrow> prefix v' v)))"

text \<open>
  The disk after an earlier run has put a stylesheet with the given content into the
  assets directory \<^verbatim>\<open>/work/out/assets\<close>.
\<close>

definition assets_world :: "string \<Rightarrow> world" where
  "assets_world css =
     fresh_world\<lparr>files := (files fresh_world)(''/work/out/assets/app.css'' \<mapsto> css),
                 dirs := (\<lambda>p. dirs fresh_world p \<or> p \<in> set [''/work/out'', ''/work/out/assets''])\<rparr>"

text \<open>
  The words of the specification for the names a save without overwriting goes through:
  \<^verbatim>\<open>report.html\<close>, \<^verbatim>\<open>report_001.html\<close>, \<^verbatim>\<open>report_002.html\<close>, ... for the file
  \<^verbatim>\<open>report.html\<close>, whose stem is \<^verbatim>\<open>report\<close> and whose extension is \<^verbatim>\<open>html\<close>.
\<close>

definition numbered :: "string \<Rightarrow> string \<Rightarrow> nat \<Rightarrow> string" where
  "numbered stem ext n =
     (if n = 0 then stem @ CHR ''.'' # ext else stem @ ''_'' @ padNum n 3 @ CHR ''.'' # ext)"

text \<open>
  The disk after the assets have been copied from the package into the default assets
  directory of a report, \<^verbatim>\<open>mochawesome-report/assets\<close>.
\<close>

definition copied_world :: world where
  "copied_world = snd (copySync fresh_world ''/pkg/dist'' ''mochawesome-report/assets'' notInline)"

text \<open>
  The disk after the data \<open>d\<close> have been written to the file \<open>name\<close>, and the directories
  above it made. \<open>report_world\<close> is the disk on which an earlier run has left the report
  \<^verbatim>\<open>/work/out/report.html\<close>.
\<close>

definition saved_world :: "world \<Rightarrow> string \<Rightarrow> string \<Rightarrow> world" where
  "saved_world w name d =
     w\<lparr>files := (files w)(name \<mapsto> d), dirs := (\<lambda>q. dirs w q \<or> q \<in> set (parent_dirs name))\<rparr>"

definition report_world :: world where
  "report_world = saved_world fresh_world ''/work/out/report.html'' ''old''"

section \<open>Properties\<close>

subsection \<open>The file extension\<close>

lemma fileExtRegex_exec_no_dot: "CHR ''.'' \<notin> set s \<Longrightarrow> fileExtRegex_exec s = None"
  by (induction s) (auto simp: fileExtRegex_at_def)

lemma fileExtRegex_exec_last_dot:
  "CHR ''.'' \<notin> set ext \<Longrightarrow> fileExtRegex_exec (stem @ CHR ''.'' # ext) = Some (stem, CHR ''.'' # ext)"
  by (induction stem) (auto simp: fileExtRegex_at_def)

lemma stripFileExt_last_dot:
  "CHR ''.'' \<notin> set ext \<Longrightarrow> stripFileExt (stem @ CHR ''.'' # ext) = stem"
  by (simp add: stripFileExt_def fileExtRegex_exec_last_dot)

lemma stripFileExt_no_dot: "CHR ''.'' \<notin> set s \<Longrightarrow> stripFileExt s = s"
  by (simp add: stripFileExt_def fileExtRegex_exec_no_dot)

lemma last_dot_split:
  "CHR ''.'' \<in> set s \<Longrightarrow> \<exists>stem ext. s = stem @ CHR ''.'' # ext \<and> CHR ''.'' \<notin> set ext"
  by (metis split_list_last)

lemma withoutExtension_last_dot:
  assumes "CHR ''.'' \<notin> set ext"
  shows "withoutExtension (stem @ CHR ''.'' # ext) = stem"
proof -
  have "dropWhile (\<lambda>c. c \<noteq> CHR ''.'') (rev ext @ CHR ''.'' # rev stem) = CHR ''.'' # rev stem"
    using assms by (subst dropWhile_append2) auto
  then show ?thesis by (simp add: withoutExtension_def)
qed

lemma stripFileExt_withoutExtension: "stripFileExt f = withoutExtension f"
proof (cases "CHR ''.'' \<in> set f")
  case True
  then obtain stem ext where "f = stem @ CHR ''.'' # ext" "CHR ''.'' \<notin> set ext"
    using last_dot_split by blast
  then show ?thesis by (simp add: stripFileExt_last_dot withoutExtension_last_dot)
next
  case False
  then show ?thesis by (simp add: stripFileExt_no_dot withoutExtension_def)
qed

lemma timestampSuffix_off:
  "t = JBool False \<or> t = JStr ''false'' \<Longrightarrow> timestampSuffix e w t = ([], w)"
  by (auto simp: timestampSuffix_def)

lemma timestampSuffix_on:
  "t \<noteq> JBool False \<Longrightarrow> t \<noteq> JStr ''false'' \<Longrightarrow>
   timestampSuffix e w t =
     (sanitizeTimestamp (CHR ''_'' # dateFormat e (clock e (ticks w)) (getTimestampFormat t)),
      w\<lparr>ticks := Suc (ticks w)\<rparr>)"
  by (simp add: timestampSuffix_def newDate_def)

lemma getFilename_resolve:
  "fst (getFilename e w opts) =
     path_resolve e [cwd e, reportDir opts,
       stripFileExt (case reportFilename opts of None \<Rightarrow> ''mochawesome'' | Some f \<Rightarrow> f) @
       fst (timestampSuffix e w (timestamp opts))]"
  by (simp add: getFilename_def split: prod.splits)

text \<open>
  C2. When the timestamp option is the boolean \<^verbatim>\<open>false\<close> or the string \<^verbatim>\<open>"false"\<close>,
  \<^verbatim>\<open>getFilename\<close> returns \<^verbatim>\<open>path.resolve\<close> of the working directory, the report
  directory and the report file name without its extension (\<^verbatim>\<open>mochawesome\<close> when the
  name is undefined): nothing is appended to it, and the clock is not read.
\<close>

theorem getFilename_without_timestamp:
  "timestamp opts = JBool False \<or> timestamp opts = JStr ''false'' \<Longrightarrow>
   getFilename e w opts =
     (path_resolve e [cwd e, reportDir opts,
        withoutExtension (case reportFilename opts of None \<Rightarrow> ''mochawesome'' | Some f \<Rightarrow> f)], w)"
  by (simp add: getFilename_def timestampSuffix_off stripFileExt_withoutExtension)


lemma posix_env_fields:
  "cwd posix_env = ''/work''"
  "module_dir posix_env = ''/pkg/lib''"
  "pkg_version posix_env = ''3.1.1''"
  "clock posix_env = ticking_clock"
  "path_resolve posix_env = posix_resolve"
  "path_join posix_env = posix_join"
  "path_relative posix_env = posix_relative"
  "dateFormat posix_env = utc_dateFormat"
  "stringify posix_env = (\<lambda>v n. json_text n 0 v)"
  "renderMainHTML posix_env = plain_render"
  "getMergedOptions posix_env = default_getMergedOptions"
  "opener_ok posix_env = (\<lambda>f. True)"
  by (simp_all add: posix_env_def)

lemma fresh_world_fields:
  "files fresh_world = dist_files"
  "dirs fresh_world = (\<lambda>p. p \<in> set [''/'', ''/pkg'', ''/pkg/lib'', ''/pkg/dist'', ''/work''])"
  "denied fresh_world = (\<lambda>p. False)"
  "opened fresh_world = []"
  "ticks fresh_world = 0"
  by (simp_all add: fresh_world_def)

lemmas posix_path_defs = posix_resolve_def posix_join_def join_paths_def

theorem getFilename_without_timestamp_witness:
  "getFilename posix_env fresh_world
     (default_getMergedOptions [''reportFilename'' \<mapsto> JStr ''report.html'']) =
   (''/work/mochawesome-report/report'', fresh_world)"
proof -
  let ?opts = "default_getMergedOptions [''reportFilename'' \<mapsto> JStr ''report.html'']"
  have t: "timestamp ?opts = JBool False \<or> timestamp ?opts = JStr ''false''"
    by (simp add: default_getMergedOptions_def val_option_def)
  have n: "reportFilename ?opts = Some ''report.html''" "reportDir ?opts = ''mochawesome-report''"
    by (simp_all add: default_getMergedOptions_def str_option_def)
  have x: "withoutExtension ''report.html'' = ''report''"
    by (simp add: withoutExtension_def)
  have r: "posix_resolve [''/work'', ''mochawesome-report'', ''report''] = ''/work/mochawesome-report/report''"
    by (simp add: posix_path_defs)
  show ?thesis
    using getFilename_without_timestamp [OF t, of posix_env fresh_world]
    by (simp add: n x r posix_env_fields)
qed

text \<open>
  C10. The file extension that \<^verbatim>\<open>getFilename\<close> strips is everything from the last dot of
  \<^verbatim>\<open>reportFilename\<close> to its end, whatever stands there: a name \<open>stem.ext\<close> whose \<open>ext\<close>
  has no dot is cut to \<open>stem\<close> (every name with a dot is of this form), and \<open>stem\<close> is what
  the time stamp is appended to; \<^verbatim>\<open>report.v2\<close> is cut to \<^verbatim>\<open>report\<close>; a name without a dot
  stays as it is.
\<close>

theorem stripFileExt_last_dot_segment:
  "(CHR ''.'' \<notin> set ext \<longrightarrow>
      stripFileExt (stem @ CHR ''.'' # ext) = stem \<and>
      (reportFilename opts = Some (stem @ CHR ''.'' # ext) \<longrightarrow>
         fst (getFilename e w opts) =
           path_resolve e [cwd e, reportDir opts, stem @ fst (timestampSuffix e w (timestamp opts))])) \<and>
   (CHR ''.'' \<in> set f \<longrightarrow> (\<exists>s x. f = s @ CHR ''.'' # x \<and> CHR ''.'' \<notin> set x)) \<and>
   (CHR ''.'' \<notin> set f \<longrightarrow> stripFileExt f = f) \<and>
   stripFileExt ''report.v2'' = ''report''"
proof -
  have a: "stripFileExt ''report.v2'' = ''report''"
    using stripFileExt_last_dot [of "''v2''" "''report''"] by simp
  show ?thesis
    using a last_dot_split [of f]
    by (simp add: stripFileExt_last_dot stripFileExt_no_dot getFilename_resolve)
qed

theorem stripFileExt_last_dot_segment_witness:
  "stripFileExt ''my.report.tar.gz'' = ''my.report.tar'' \<and>
   stripFileExt ''mochawesome'' = ''mochawesome'' \<and>
   fst (getFilename posix_env fresh_world
          (default_getMergedOptions [''reportFilename'' \<mapsto> JStr ''report.v2''])) =
     ''/work/mochawesome-report/report''"
proof -
  let ?opts = "default_getMergedOptions [''reportFilename'' \<mapsto> JStr ''report.v2'']"
  have n: "reportFilename ?opts = Some (''report'' @ CHR ''.'' # ''v2'')"
      "reportDir ?opts = ''mochawesome-report''" "timestamp ?opts = JBool False"
    by (simp_all add: default_getMergedOptions_def str_option_def val_option_def)
  have r: "posix_resolve [''/work'', ''mochawesome-report'', ''report''] = ''/work/mochawesome-report/report''"
    by (simp add: posix_path_defs)
  have 1: "stripFileExt ''my.report.tar.gz'' = ''my.report.tar''"
    using stripFileExt_last_dot_segment [of "''gz''" "''my.report.tar''"] by simp
  have 2: "stripFileExt ''mochawesome'' = ''mochawesome''"
    using stripFileExt_last_dot_segment [of _ _ _ _ _ "''mochawesome''"] by simp
  have 3: "fst (getFilename posix_env fresh_world ?opts) = ''/work/mochawesome-report/report''"
    using stripFileExt_last_dot_segment [of "''v2''" "''report''" ?opts posix_env fresh_world] n
    by (simp add: timestampSuffix_off r posix_env_fields)
  show ?thesis using 1 2 3 by simp
qed

subsection \<open>The time stamp\<close>

lemma replaceCommaSpace_clean:
  "c \<in> set (replaceCommaSpace s) \<Longrightarrow> c \<noteq> CHR '','' \<and> \<not> is_space c"
  by (induction s rule: replaceCommaSpace.induct) (auto simp: is_space_def split: if_splits)

lemma is_space_blank: "is_space (CHR '' '')"
  by (simp add: is_space_def)

lemma sanitizeTimestamp_clean:
  "set (sanitizeTimestamp s) \<inter> {CHR '','', CHR '' '', CHR ''/'', CHR 0x5C, CHR '':''} = {}"
proof -
  have a: "\<And>c. c \<in> set (replaceCommaSpace s) \<Longrightarrow> c \<noteq> CHR '','' \<and> c \<noteq> CHR '' ''"
    using replaceCommaSpace_clean is_space_blank by blast
  have b: "\<And>c. c \<in> set (replaceSlashes (replaceCommaSpace s)) \<Longrightarrow>
     c \<noteq> CHR '','' \<and> c \<noteq> CHR '' '' \<and> c \<noteq> CHR ''/'' \<and> c \<noteq> CHR 0x5C"
    using a by (auto simp: replaceSlashes_def)
  show ?thesis using b by (auto simp: sanitizeTimestamp_def removeColons_def)
qed

lemma dropWhile_blanks:
  "rest = [] \<or> \<not> is_space (hd rest) \<Longrightarrow> dropWhile is_space (replicate n (CHR '' '') @ rest) = rest"
  by (induction n) (auto simp: is_space_blank dropWhile_eq_self_iff)

lemma sanitizeTimestamp_comma:
  "rest = [] \<or> \<not> is_space (hd rest) \<Longrightarrow>
   sanitizeTimestamp (CHR '','' # replicate n (CHR '' '') @ rest) = CHR ''_'' # sanitizeTimestamp rest"
  by (simp add: sanitizeTimestamp_def dropWhile_blanks replaceSlashes_def removeColons_def)

lemma sanitizeTimestamp_blanks:
  "rest = [] \<or> \<not> is_space (hd rest) \<Longrightarrow>
   sanitizeTimestamp (replicate (Suc n) (CHR '' '') @ rest) = CHR ''_'' # sanitizeTimestamp rest"
  by (simp add: sanitizeTimestamp_def dropWhile_blanks replaceSlashes_def removeColons_def is_space_blank)

lemma sanitizeTimestamp_slash:
  "sanitizeTimestamp (CHR ''/'' # rest) = CHR ''-'' # sanitizeTimestamp rest"
  "sanitizeTimestamp (CHR 0x5C # rest) = CHR ''-'' # sanitizeTimestamp rest"
  by (simp_all add: sanitizeTimestamp_def replaceSlashes_def removeColons_def is_space_def)

lemma sanitizeTimestamp_colon: "sanitizeTimestamp (CHR '':'' # rest) = sanitizeTimestamp rest"
  by (simp add: sanitizeTimestamp_def replaceSlashes_def removeColons_def is_space_def)

lemma sanitizeTimestamp_other:
  "c \<notin> {CHR '','', CHR ''/'', CHR 0x5C, CHR '':''} \<Longrightarrow> \<not> is_space c \<Longrightarrow>
   sanitizeTimestamp (c # rest) = c # sanitizeTimestamp rest"
  by (simp add: sanitizeTimestamp_def replaceSlashes_def removeColons_def)

lemma getTimestampFormat_default:
  "t \<in> {JStr '''', JStr ''true'', JBool True} \<Longrightarrow> getTimestampFormat t = JStr ''isoDateTime''"
  by (auto simp: getTimestampFormat_def)

text \<open>
  C3. For every reading of the clock and every timestamp option other than \<^verbatim>\<open>false\<close>
  and \<^verbatim>\<open>"false"\<close>, the suffix is the sanitized text of an underscore and the formatted
  date (the mask is \<^verbatim>\<open>isoDateTime\<close> for \<^verbatim>\<open>""\<close>, \<^verbatim>\<open>"true"\<close> and \<^verbatim>\<open>true\<close>), it is what
  \<^verbatim>\<open>getFilename\<close> appends to the name, and it holds no comma, no space, no slash, no
  backslash and no colon. The sanitizer turns a comma with the spaces after it, and a run
  of spaces, into one underscore, a slash or backslash into a hyphen, drops a colon and
  keeps every other character.
\<close>

theorem timestampSuffix_sanitized:
  "t \<noteq> JBool False \<Longrightarrow> t \<noteq> JStr ''false'' \<Longrightarrow>
   fst (timestampSuffix e w t) =
     sanitizeTimestamp (CHR ''_'' # dateFormat e (clock e (ticks w)) (getTimestampFormat t)) \<and>
   set (fst (timestampSuffix e w t)) \<inter> {CHR '','', CHR '' '', CHR ''/'', CHR 0x5C, CHR '':''} = {} \<and>
   (t \<in> {JStr '''', JStr ''true'', JBool True} \<longrightarrow> getTimestampFormat t = JStr ''isoDateTime'') \<and>
   (timestamp opts = t \<longrightarrow>
      fst (getFilename e w opts) =
        path_resolve e [cwd e, reportDir opts,
          stripFileExt (case reportFilename opts of None \<Rightarrow> ''mochawesome'' | Some f \<Rightarrow> f) @
          fst (timestampSuffix e w t)]) \<and>
   (\<forall>n rest. rest = [] \<or> \<not> is_space (hd rest) \<longrightarrow>
      sanitizeTimestamp (CHR '','' # replicate n (CHR '' '') @ rest) = CHR ''_'' # sanitizeTimestamp rest) \<and>
   (\<forall>n rest. rest = [] \<or> \<not> is_space (hd rest) \<longrightarrow>
      sanitizeTimestamp (replicate (Suc n) (CHR '' '') @ rest) = CHR ''_'' # sanitizeTimestamp rest) \<and>
   (\<forall>rest. sanitizeTimestamp (CHR ''/'' # rest) = CHR ''-'' # sanitizeTimestamp rest) \<and>
   (\<forall>rest. sanitizeTimestamp (CHR 0x5C # rest) = CHR ''-'' # sanitizeTimestamp rest) \<and>
   (\<forall>rest. sanitizeTimestamp (CHR '':'' # rest) = sanitizeTimestamp rest) \<and>
   (\<forall>c rest. c \<notin> {CHR '','', CHR ''/'', CHR 0x5C, CHR '':''} \<and> \<not> is_space c \<longrightarrow>
      sanitizeTimestamp (c # rest) = c # sanitizeTimestamp rest)"
proof -
  assume t: "t \<noteq> JBool False" "t \<noteq> JStr ''false''"
  have 1: "fst (timestampSuffix e w t) =
     sanitizeTimestamp (CHR ''_'' # dateFormat e (clock e (ticks w)) (getTimestampFormat t))"
    using t by (simp add: timestampSuffix_on)
  have 2: "set (fst (timestampSuffix e w t)) \<inter> {CHR '','', CHR '' '', CHR ''/'', CHR 0x5C, CHR '':''} = {}"
    unfolding 1 by (rule sanitizeTimestamp_clean)
  have 3: "timestamp opts = t \<longrightarrow>
      fst (getFilename e w opts) =
        path_resolve e [cwd e, reportDir opts,
          stripFileExt (case reportFilename opts of None \<Rightarrow> ''mochawesome'' | Some f \<Rightarrow> f) @
          fst (timestampSuffix e w t)]"
    using getFilename_resolve [of e w opts] by auto
  have 4: "t \<in> {JStr '''', JStr ''true'', JBool True} \<longrightarrow> getTimestampFormat t = JStr ''isoDateTime''"
    using getTimestampFormat_default by blast
  have 5: "\<forall>n rest. rest = [] \<or> \<not> is_space (hd rest) \<longrightarrow>
      sanitizeTimestamp (CHR '','' # replicate n (CHR '' '') @ rest) = CHR ''_'' # sanitizeTimestamp rest"
    using sanitizeTimestamp_comma by blast
  have 6: "\<forall>n rest. rest = [] \<or> \<not> is_space (hd rest) \<longrightarrow>
      sanitizeTimestamp (replicate (Suc n) (CHR '' '') @ rest) = CHR ''_'' # sanitizeTimestamp rest"
    using sanitizeTimestamp_blanks by blast
  have 7: "\<forall>rest. sanitizeTimestamp (CHR ''/'' # rest) = CHR ''-'' # sanitizeTimestamp rest"
    using sanitizeTimestamp_slash(1) by blast
  have 8: "\<forall>rest. sanitizeTimestamp (CHR 0x5C # rest) = CHR ''-'' # sanitizeTimestamp rest"
    using sanitizeTimestamp_slash(2) by blast
  have 9: "\<forall>rest. sanitizeTimestamp (CHR '':'' # rest) = sanitizeTimestamp rest"
    using sanitizeTimestamp_colon by blast
  have 10: "\<forall>c rest. c \<notin> {CHR '','', CHR ''/'', CHR 0x5C, CHR '':''} \<and> \<not> is_space c \<longrightarrow>
      sanitizeTimestamp (c # rest) = c # sanitizeTimestamp rest"
    using sanitizeTimestamp_other by blast
  show ?thesis
    by (intro conjI) (rule 1 2 3 4 5 6 7 8 9 10)+
qed

lemma utc_dateFormat_samples:
  "utc_dateFormat (ticking_clock 0) (JStr ''isoDateTime'') = ''2016-11-03T12:30:59+0000''"
  "utc_dateFormat (ticking_clock (Suc 0)) (JStr ''isoDateTime'') = ''2016-11-03T12:31:00+0000''"
  by (simp_all add: utc_dateFormat_def iso_date_def iso_time_def ticking_clock_def padNum_def
      show_nat.simps digit_char_def)

lemmas sanitize_defs = sanitizeTimestamp_def removeColons_def replaceSlashes_def is_space_def

lemma sanitizeTimestamp_samples:
  "sanitizeTimestamp ''_2016-11-03T12:30:59+0000'' = ''_2016-11-03T123059+0000''"
  "sanitizeTimestamp ''_2016-11-03T12:31:00+0000'' = ''_2016-11-03T123100+0000''"
  "sanitizeTimestamp ''Thursday, November 3, 2016 12:30:59'' = ''Thursday_November_3_2016_123059''"
  by (simp_all add: sanitize_defs)

theorem timestampSuffix_sanitized_witness:
  "fst (timestampSuffix posix_env fresh_world (JBool True)) = ''_2016-11-03T123059+0000'' \<and>
   sanitizeTimestamp ''Thursday, November 3, 2016 12:30:59'' = ''Thursday_November_3_2016_123059''"
proof -
  have "fst (timestampSuffix posix_env fresh_world (JBool True)) =
     sanitizeTimestamp (CHR ''_'' # dateFormat posix_env (clock posix_env (ticks fresh_world))
       (getTimestampFormat (JBool True)))"
    by (rule timestampSuffix_sanitized [THEN conjunct1]) simp_all
  then have 1: "fst (timestampSuffix posix_env fresh_world (JBool True)) = ''_2016-11-03T123059+0000''"
    by (simp add: posix_env_fields fresh_world_fields getTimestampFormat_def
        utc_dateFormat_samples sanitizeTimestamp_samples)
  show ?thesis using 1 sanitizeTimestamp_samples(3) by simp
qed

subsection \<open>The options\<close>

lemma getFilename_snd: "snd (getFilename e w opts) = snd (timestampSuffix e w (timestamp opts))"
  by (simp add: getFilename_def split: prod.splits)

lemma getFilename_files_irrelevant:
  "getFilename e w (opts\<lparr>jsonFile := j\<rparr>) = getFilename e w opts"
  by (simp add: getFilename_def)

lemma getOptions_eq:
  "getOptions e w opts =
     (let m = getMergedOptions e (case opts of None \<Rightarrow> Map.empty | Some x \<Rightarrow> x);
          w1 = (if truthy (saveJson m) then snd (getFilename e w m) else w)
      in (m\<lparr>jsonFile := (if truthy (saveJson m) then Some (fst (getFilename e w m) @ ''.json'')
                          else jsonFile m),
            htmlFile := Some (fst (getFilename e w1 m) @ ''.html'')\<rparr>,
          snd (getFilename e w1 m)))"
  by (simp add: getOptions_def Let_def getFilename_files_irrelevant split: prod.splits)

lemma timestampSuffix_world:
  "snd (timestampSuffix e w t) =
     (if t \<noteq> JBool False \<and> t \<noteq> JStr ''false'' then w\<lparr>ticks := Suc (ticks w)\<rparr> else w)"
  by (simp add: timestampSuffix_def newDate_def)

text \<open>
  C1. With \<^verbatim>\<open>saveJson\<close> and \<^verbatim>\<open>timestamp\<close> set to \<^verbatim>\<open>true\<close>, \<^verbatim>\<open>getOptions\<close> calls
  \<^verbatim>\<open>getFilename\<close> twice and each call reads the clock. When the clock reads 12:30:59 at
  the first call and 12:31:00 at the second, the JSON file and the HTML file get
  different bases.
\<close>

theorem getOptions_bases_differ:
  "jsonFile (fst (getOptions posix_env fresh_world
      (Some [''saveJson'' \<mapsto> JBool True, ''timestamp'' \<mapsto> JBool True]))) =
     Some ''/work/mochawesome-report/mochawesome_2016-11-03T123059+0000.json'' \<and>
   htmlFile (fst (getOptions posix_env fresh_world
      (Some [''saveJson'' \<mapsto> JBool True, ''timestamp'' \<mapsto> JBool True]))) =
     Some ''/work/mochawesome-report/mochawesome_2016-11-03T123100+0000.html''"
proof -
  let ?m = "default_getMergedOptions [''saveJson'' \<mapsto> JBool True, ''timestamp'' \<mapsto> JBool True]"
  have m: "saveJson ?m = JBool True" "timestamp ?m = JBool True"
      "reportDir ?m = ''mochawesome-report''" "reportFilename ?m = Some ''mochawesome''"
    by (simp_all add: default_getMergedOptions_def str_option_def val_option_def)
  have s: "stripFileExt ''mochawesome'' = ''mochawesome''"
    by (simp add: stripFileExt_no_dot)
  have t0: "fst (timestampSuffix posix_env fresh_world (JBool True)) = ''_2016-11-03T123059+0000''"
    by (simp add: timestampSuffix_on posix_env_fields fresh_world_fields getTimestampFormat_def
        utc_dateFormat_samples sanitizeTimestamp_samples)
  have t1: "fst (timestampSuffix posix_env (fresh_world\<lparr>ticks := Suc 0\<rparr>) (JBool True)) =
      ''_2016-11-03T123100+0000''"
    by (simp add: timestampSuffix_on posix_env_fields getTimestampFormat_def
        utc_dateFormat_samples sanitizeTimestamp_samples)
  have r0: "posix_resolve [''/work'', ''mochawesome-report'', ''mochawesome_2016-11-03T123059+0000''] =
      ''/work/mochawesome-report/mochawesome_2016-11-03T123059+0000''"
    by (simp add: posix_path_defs)
  have r1: "posix_resolve [''/work'', ''mochawesome-report'', ''mochawesome_2016-11-03T123100+0000''] =
      ''/work/mochawesome-report/mochawesome_2016-11-03T123100+0000''"
    by (simp add: posix_path_defs)
  have f0: "fst (getFilename posix_env fresh_world ?m) =
      ''/work/mochawesome-report/mochawesome_2016-11-03T123059+0000''"
    by (simp add: getFilename_resolve m s t0 r0 posix_env_fields)
  have w1: "snd (getFilename posix_env fresh_world ?m) = fresh_world\<lparr>ticks := Suc 0\<rparr>"
    by (simp add: getFilename_snd timestampSuffix_world m fresh_world_fields)
  have f1: "fst (getFilename posix_env (fresh_world\<lparr>ticks := Suc 0\<rparr>) ?m) =
      ''/work/mochawesome-report/mochawesome_2016-11-03T123100+0000''"
    by (simp add: getFilename_resolve m s t1 r1 posix_env_fields)
  show ?thesis
    by (simp add: getOptions_eq Let_def posix_env_fields m f0 w1 f1)
qed

subsection \<open>The freshness of the assets\<close>

lemma dot_not_digit: "\<not> is_digit (CHR ''.'')"
  by (simp add: is_digit_def)

lemma takeWhile_digits_dot:
  "list_all is_digit a \<Longrightarrow> takeWhile is_digit (a @ CHR ''.'' # r) = a"
  by (induction a) (auto simp: dot_not_digit)

lemma dropWhile_digits_dot:
  "list_all is_digit a \<Longrightarrow> dropWhile is_digit (a @ CHR ''.'' # r) = CHR ''.'' # r"
  by (induction a) (auto simp: dot_not_digit)

lemma takeWhile_digits_append:
  "list_all is_digit c \<Longrightarrow> takeWhile is_digit (c @ r) = c @ takeWhile is_digit r"
  by (induction c) auto

lemma version_at_complete:
  assumes "is_version v"
  shows "version_at (v @ r) = Some (v @ takeWhile is_digit r)"
proof -
  from assms obtain a b c where v: "v = a @ ''.'' @ b @ ''.'' @ c"
    and ne: "a \<noteq> []" "b \<noteq> []" "c \<noteq> []"
    and dg: "list_all is_digit a" "list_all is_digit b" "list_all is_digit c"
    by (auto simp: is_version_def)
  show ?thesis
    using ne dg
    by (simp add: version_at_def Let_def v takeWhile_digits_dot dropWhile_digits_dot
        takeWhile_digits_append dot_not_digit)
qed

lemma version_at_sound:
  assumes "version_at s = Some v"
  shows "is_version v \<and> prefix v s"
proof -
  let ?d1 = "takeWhile is_digit s" and ?r1 = "dropWhile is_digit s"
  from assms obtain s2 where r1: "?r1 = CHR ''.'' # s2" and d1: "?d1 \<noteq> []"
    by (auto simp: version_at_def Let_def split: list.splits if_splits)
  let ?d2 = "takeWhile is_digit s2" and ?r2 = "dropWhile is_digit s2"
  from assms r1 d1 obtain s3 where r2: "?r2 = CHR ''.'' # s3" and d2: "?d2 \<noteq> []"
    by (auto simp: version_at_def Let_def split: list.splits if_splits)
  let ?d3 = "takeWhile is_digit s3"
  from assms r1 d1 r2 d2 have d3: "?d3 \<noteq> []" and v: "v = ?d1 @ ''.'' @ ?d2 @ ''.'' @ ?d3"
    by (auto simp: version_at_def Let_def split: list.splits if_splits)
  have dg: "list_all is_digit (?d1 @ ?d2 @ ?d3)"
    by (auto simp: list_all_iff dest: set_takeWhileD)
  have "s = ?d1 @ ?r1" by simp
  also have "?r1 = CHR ''.'' # (?d2 @ ?r2)" using r1 by simp
  also have "?r2 = CHR ''.'' # (?d3 @ dropWhile is_digit s3)" using r2 by simp
  finally have "s = v @ dropWhile is_digit s3" by (simp add: v)
  then have "prefix v s" by (metis prefixI)
  moreover have "is_version v"
    unfolding is_version_def using v d1 d2 d3 dg by blast
  ultimately show ?thesis by simp
qed

lemma version_at_longest:
  assumes "version_at s = Some v" "is_version v'" "prefix v' s"
  shows "prefix v' v"
proof -
  from assms(3) obtain r where "s = v' @ r" by (auto simp: prefix_def)
  with version_at_complete [OF assms(2), of r] assms(1) show ?thesis by auto
qed

lemma version_at_None: "version_at s = None \<Longrightarrow> is_version v \<Longrightarrow> \<not> prefix v s"
  using version_at_complete by (fastforce simp: prefix_def)

lemma is_version_nonempty: "is_version v \<Longrightarrow> v \<noteq> []"
  by (auto simp: is_version_def)

lemma version_occurs_Nil: "\<not> version_occurs [] k v"
  by (auto simp: version_occurs_def dest: is_version_nonempty)

lemma version_occurs_Cons:
  "version_occurs (c # cs) k v =
     (case k of 0 \<Rightarrow> is_version v \<and> prefix v (c # cs) | Suc j \<Rightarrow> version_occurs cs j v)"
  by (simp add: version_occurs_def split: nat.splits)

lemma version_exec_None: "version_exec s = None \<longleftrightarrow> (\<forall>k v. \<not> version_occurs s k v)"
proof (induction s)
  case Nil
  show ?case by (simp add: version_occurs_Nil)
next
  case (Cons c cs)
  show ?case
  proof (cases "version_at (c # cs)")
    case None
    have "(\<forall>k v. \<not> version_occurs (c # cs) k v) \<longleftrightarrow> (\<forall>k v. \<not> version_occurs cs k v)"
    proof
      assume a: "\<forall>k v. \<not> version_occurs (c # cs) k v"
      show "\<forall>k v. \<not> version_occurs cs k v"
      proof (intro allI)
        fix k v from a have "\<not> version_occurs (c # cs) (Suc k) v" by blast
        then show "\<not> version_occurs cs k v" by (simp add: version_occurs_Cons)
      qed
    next
      assume a: "\<forall>k v. \<not> version_occurs cs k v"
      show "\<forall>k v. \<not> version_occurs (c # cs) k v"
      proof (intro allI)
        fix k v show "\<not> version_occurs (c # cs) k v"
          using a version_at_None [OF None, of v]
          by (cases k) (auto simp: version_occurs_Cons)
      qed
    qed
    with Cons None show ?thesis by simp
  next
    case (Some v)
    from version_at_sound [OF Some] have "version_occurs (c # cs) 0 v"
      by (simp add: version_occurs_Cons)
    with Some show ?thesis by auto
  qed
qed

lemma version_exec_first: "version_exec s = Some v \<Longrightarrow> first_version s v"
proof (induction s)
  case Nil
  then show ?case by simp
next
  case (Cons c cs)
  show ?case
  proof (cases "version_at (c # cs)")
    case None
    with Cons.prems have "version_exec cs = Some v" by simp
    from Cons.IH [OF this] obtain k where k: "version_occurs cs k v"
      and least: "\<And>k' v'. version_occurs cs k' v' \<Longrightarrow> k \<le> k' \<and> (k' = k \<longrightarrow> prefix v' v)"
      by (auto simp: first_version_def)
    have "version_occurs (c # cs) (Suc k) v" using k by (simp add: version_occurs_Cons)
    moreover have "k'' \<ge> Suc k \<and> (k'' = Suc k \<longrightarrow> prefix v' v)"
      if "version_occurs (c # cs) k'' v'" for k'' v'
    proof (cases k'')
      case 0
      with that version_at_None [OF None, of v'] show ?thesis
        by (simp add: version_occurs_Cons)
    next
      case (Suc j)
      with that have "version_occurs cs j v'" by (simp add: version_occurs_Cons)
      from least [OF this] Suc show ?thesis by simp
    qed
    ultimately show ?thesis unfolding first_version_def by blast
  next
    case (Some u)
    with Cons.prems have uv: "u = v" by simp
    from version_at_sound [OF Some] have "version_occurs (c # cs) 0 v"
      by (simp add: version_occurs_Cons uv)
    moreover have "prefix v' v" if "version_occurs (c # cs) 0 v'" for v'
      using that version_at_longest [OF Some, of v'] by (simp add: version_occurs_Cons uv)
    ultimately show ?thesis unfolding first_version_def by (intro exI [of _ 0]) auto
  qed
qed

lemma first_version_unique: "first_version s u \<Longrightarrow> first_version s v \<Longrightarrow> u = v"
proof -
  assume "first_version s u" "first_version s v"
  then obtain k j where k: "version_occurs s k u"
    and lk: "\<And>k' v'. version_occurs s k' v' \<Longrightarrow> k \<le> k' \<and> (k' = k \<longrightarrow> prefix v' u)"
    and j: "version_occurs s j v"
    and lj: "\<And>k' v'. version_occurs s k' v' \<Longrightarrow> j \<le> k' \<and> (k' = j \<longrightarrow> prefix v' v)"
    unfolding first_version_def by blast
  from lk [OF j] lj [OF k] have "k = j" "prefix v u" "prefix u v" by auto
  then show "u = v" by (simp add: prefix_order.antisym)
qed

lemma first_version_exec: "first_version s v \<longleftrightarrow> version_exec s = Some v"
proof
  assume f: "first_version s v"
  then have "\<exists>k u. version_occurs s k u" unfolding first_version_def by blast
  then obtain u where "version_exec s = Some u" using version_exec_None [of s] by auto
  with f first_version_unique version_exec_first show "version_exec s = Some v" by blast
qed (rule version_exec_first)

text \<open>
  C4. \<^verbatim>\<open>_shouldCopyAssets(assetsDir)\<close> always returns a boolean (an error of the read is
  caught), and it returns true exactly when the directory does not exist, or reading
  \<^verbatim>\<open>app.css\<close> in it fails, or no text of the form \<^verbatim>\<open>\d+\.\d+\.\d+\<close> occurs in the
  stylesheet, or the first such match differs from the version of the package. When the
  directory exists, the stylesheet is read and its first match is the version of the
  package, it returns false.
\<close>

theorem shouldCopyAssets_iff:
  "(shouldCopyAssets e w dir \<longleftrightarrow>
      \<not> existsSync w dir \<or>
      (\<exists>err. loadFile w (path_join e [dir, ''app.css'']) = Inl err) \<or>
      (\<exists>css. loadFile w (path_join e [dir, ''app.css'']) = Inr css \<and>
         ((\<forall>k v. \<not> version_occurs css k v) \<or> (\<exists>v. first_version css v \<and> v \<noteq> pkg_version e)))) \<and>
   (existsSync w dir \<and> loadFile w (path_join e [dir, ''app.css'']) = Inr css \<and>
      first_version css (pkg_version e) \<longrightarrow> \<not> shouldCopyAssets e w dir)"
proof -
  have "\<not> shouldCopyAssets e w dir"
    if "existsSync w dir" "loadFile w (path_join e [dir, ''app.css'']) = Inr css"
      "first_version css (pkg_version e)"
    using that by (simp add: shouldCopyAssets_def first_version_exec)
  moreover have "shouldCopyAssets e w dir \<longleftrightarrow>
      \<not> existsSync w dir \<or>
      (\<exists>err. loadFile w (path_join e [dir, ''app.css'']) = Inl err) \<or>
      (\<exists>css. loadFile w (path_join e [dir, ''app.css'']) = Inr css \<and>
         ((\<forall>k v. \<not> version_occurs css k v) \<or> (\<exists>v. first_version css v \<and> v \<noteq> pkg_version e)))"
  proof (cases "loadFile w (path_join e [dir, ''app.css''])")
    case (Inl err)
    then show ?thesis by (simp add: shouldCopyAssets_def)
  next
    case (Inr css)
    show ?thesis
    proof (cases "version_exec css")
      case None
      with Inr version_exec_None [of css] show ?thesis
        by (simp add: shouldCopyAssets_def)
    next
      case (Some v)
      then have "\<exists>k u. version_occurs css k u"
        using version_exec_None [of css] by auto
      with Inr Some show ?thesis
        by (auto simp: shouldCopyAssets_def first_version_exec)
    qed
  qed
  ultimately show ?thesis by blast
qed

lemma version_exec_samples:
  "version_exec ''/*! mochawesome-report-generator 3.1.1 */ body{}'' = Some ''3.1.1''"
  "version_exec ''/*! mochawesome-report-generator 3.0.2 */ body{}'' = Some ''3.0.2''"
  "version_exec ''body{}'' = None"
  by (simp_all add: version_at_def is_digit_def)

lemma assets_world_fields:
  "files (assets_world css) = (files fresh_world)(''/work/out/assets/app.css'' \<mapsto> css)"
  "dirs (assets_world css) = (\<lambda>p. dirs fresh_world p \<or> p \<in> set [''/work/out'', ''/work/out/assets''])"
  "denied (assets_world css) = denied fresh_world"
  "opened (assets_world css) = opened fresh_world"
  "ticks (assets_world css) = ticks fresh_world"
  by (simp_all add: assets_world_def)

lemma posix_join_samples:
  "posix_join [''/work/out/assets'', ''app.css''] = ''/work/out/assets/app.css''"
  "posix_join [''/pkg/lib'', ''..'', ''dist''] = ''/pkg/dist''"
  "posix_join [''/pkg/dist'', ''app.inline.css''] = ''/pkg/dist/app.inline.css''"
  "posix_join [''/pkg/dist'', ''app.js''] = ''/pkg/dist/app.js''"
  by (simp_all add: posix_path_defs)

theorem shouldCopyAssets_iff_witness:
  "shouldCopyAssets posix_env fresh_world ''/work/out/assets'' \<and>
   shouldCopyAssets posix_env
     (assets_world ''/*! mochawesome-report-generator 3.0.2 */ body{}'') ''/work/out/assets'' \<and>
   \<not> shouldCopyAssets posix_env
     (assets_world ''/*! mochawesome-report-generator 3.1.1 */ body{}'') ''/work/out/assets''"
proof -
  let ?old = "''/*! mochawesome-report-generator 3.0.2 */ body{}''"
  let ?new = "''/*! mochawesome-report-generator 3.1.1 */ body{}''"
  have ex: "\<not> existsSync fresh_world ''/work/out/assets''"
    "existsSync (assets_world css) ''/work/out/assets''" for css
    by (simp_all add: existsSync_def assets_world_fields fresh_world_fields dist_files_def)
  have ld: "loadFile (assets_world css) (path_join posix_env [''/work/out/assets'', ''app.css'']) = Inr css"
    for css
    by (simp add: loadFile_def assets_world_fields fresh_world_fields posix_env_fields
        posix_join_samples)
  have 1: "shouldCopyAssets posix_env fresh_world ''/work/out/assets''"
    using shouldCopyAssets_iff [of posix_env fresh_world "''/work/out/assets''"] ex(1) by blast
  have "first_version ?old ''3.0.2''"
    unfolding first_version_exec by (rule version_exec_samples)
  then have 2: "shouldCopyAssets posix_env (assets_world ?old) ''/work/out/assets''"
    using shouldCopyAssets_iff [of posix_env "assets_world ?old" "''/work/out/assets''"] ld [of ?old]
    by (auto simp: posix_env_fields)
  have "first_version ?new (pkg_version posix_env)"
    unfolding first_version_exec posix_env_fields by (rule version_exec_samples)
  then have 3: "\<not> shouldCopyAssets posix_env (assets_world ?new) ''/work/out/assets''"
    using shouldCopyAssets_iff [of posix_env "assets_world ?new" "''/work/out/assets''" ?new]
      ld [of ?new] ex(2) [of ?new]
    by blast
  show ?thesis using 1 2 3 by simp
qed

subsection \<open>Copying the assets\<close>

lemma sublist_of_prefix: "sublist x p \<Longrightarrow> prefix p q \<Longrightarrow> sublist x q"
  by (auto simp: sublist_def prefix_def) (metis append.assoc)

lemma notInline_prefix: "notInline q \<Longrightarrow> prefix p q \<Longrightarrow> notInline p"
  unfolding notInline_def using sublist_of_prefix by blast

lemma parent_dirs_prefix: "d \<in> set (parent_dirs rel) \<Longrightarrow> prefix d rel"
  by (auto simp: parent_dirs_def take_is_prefix)

lemma visited_prefix: "p \<in> set (visited src rel) \<Longrightarrow> prefix p (src @ ''/'' @ rel)"
  by (auto simp: visited_def dest: parent_dirs_prefix)

lemma visited_last: "src @ ''/'' @ rel \<in> set (visited src rel)"
  by (simp add: visited_def)

lemma copied_notInline: "copied src notInline rel \<longleftrightarrow> notInline (src @ ''/'' @ rel)"
  unfolding copied_def list_all_iff
  using visited_last visited_prefix notInline_prefix by blast

lemma path_below_self: "rel \<noteq> [] \<Longrightarrow> path_below d (d @ CHR ''/'' # rel) = Some rel"
  by (simp add: path_below_def)

lemma copySync_files:
  "copySync w src dest keep = (r, w') \<Longrightarrow>
   files w' q =
     (if r = Inr () \<and> keep src then
        (case path_below dest q of
           None \<Rightarrow> files w q
         | Some rel \<Rightarrow>
             (case files w (src @ ''/'' @ rel) of
                None \<Rightarrow> files w q
              | Some c \<Rightarrow> if copied src keep rel then Some c else files w q))
      else files w q)"
  by (auto simp: copySync_def split: if_splits)

lemma copySync_ok:
  "dirs w src \<Longrightarrow> \<not> denied w src \<Longrightarrow> \<not> denied w dest \<Longrightarrow> fst (copySync w src dest keep) = Inr ()"
  by (simp add: copySync_def)

text \<open>
  C9. \<^verbatim>\<open>copyAssets\<close> copies only when \<^verbatim>\<open>_shouldCopyAssets\<close> returns true, and then runs the
  copy of the \<^verbatim>\<open>dist\<close> directory with the filter of the source. When the copy succeeds,
  a file of the source directory whose path does not hold \<^verbatim>\<open>inline\<close> is at its place
  below \<^verbatim>\<open>assetsDir\<close> afterwards, and for a file whose path holds \<^verbatim>\<open>inline\<close> that place is
  as it was: an entry is copied exactly when \<^verbatim>\<open>inline\<close> does not occur in its path.
  Nothing outside \<^verbatim>\<open>assetsDir\<close> is written. The copy succeeds when the source directory
  can be read and the destination can be written.
\<close>

theorem copyAssets_not_inline:
  "(\<not> shouldCopyAssets e w (assetsDir opts) \<longrightarrow> copyAssets e w opts = (Inr (), w)) \<and>
   (shouldCopyAssets e w (assetsDir opts) \<longrightarrow>
      copyAssets e w opts = copySync w (distDir e) (assetsDir opts) notInline) \<and>
   (copied (distDir e) notInline rel \<longleftrightarrow> \<not> sublist ''inline'' (distDir e @ ''/'' @ rel)) \<and>
   (shouldCopyAssets e w (assetsDir opts) \<and> copyAssets e w opts = (Inr (), w') \<and>
    files w (distDir e @ ''/'' @ rel) = Some c \<and> rel \<noteq> [] \<longrightarrow>
      (\<not> sublist ''inline'' (distDir e @ ''/'' @ rel) \<longrightarrow>
         files w' (assetsDir opts @ ''/'' @ rel) = Some c) \<and>
      (sublist ''inline'' (distDir e @ ''/'' @ rel) \<longrightarrow>
         files w' (assetsDir opts @ ''/'' @ rel) = files w (assetsDir opts @ ''/'' @ rel))) \<and>
   (copyAssets e w opts = (r, w') \<and> path_below (assetsDir opts) q = None \<longrightarrow> files w' q = files w q) \<and>
   (shouldCopyAssets e w (assetsDir opts) \<and> dirs w (distDir e) \<and> \<not> denied w (distDir e) \<and>
    \<not> denied w (assetsDir opts) \<longrightarrow> fst (copyAssets e w opts) = Inr ())"
proof -
  have 1: "\<not> shouldCopyAssets e w (assetsDir opts) \<longrightarrow> copyAssets e w opts = (Inr (), w)"
    by (simp add: copyAssets_def)
  have 2: "shouldCopyAssets e w (assetsDir opts) \<longrightarrow>
      copyAssets e w opts = copySync w (distDir e) (assetsDir opts) notInline"
    by (simp add: copyAssets_def)
  have 3: "copied (distDir e) notInline rel \<longleftrightarrow> \<not> sublist ''inline'' (distDir e @ ''/'' @ rel)"
    by (simp add: copied_notInline notInline_def)
  have 4: "shouldCopyAssets e w (assetsDir opts) \<and> copyAssets e w opts = (Inr (), w') \<and>
    files w (distDir e @ ''/'' @ rel) = Some c \<and> rel \<noteq> [] \<longrightarrow>
      (\<not> sublist ''inline'' (distDir e @ ''/'' @ rel) \<longrightarrow>
         files w' (assetsDir opts @ ''/'' @ rel) = Some c) \<and>
      (sublist ''inline'' (distDir e @ ''/'' @ rel) \<longrightarrow>
         files w' (assetsDir opts @ ''/'' @ rel) = files w (assetsDir opts @ ''/'' @ rel))"
  proof (intro impI, elim conjE)
    assume a: "shouldCopyAssets e w (assetsDir opts)" "copyAssets e w opts = (Inr (), w')"
      "files w (distDir e @ ''/'' @ rel) = Some c" "rel \<noteq> []"
    from a(1,2) have cs: "copySync w (distDir e) (assetsDir opts) notInline = (Inr (), w')"
      by (simp add: copyAssets_def)
    have root: "\<not> notInline (distDir e) \<Longrightarrow> sublist ''inline'' (distDir e @ ''/'' @ rel)"
      using notInline_prefix [of "distDir e @ ''/'' @ rel" "distDir e"]
      by (auto simp: notInline_def)
    show "(\<not> sublist ''inline'' (distDir e @ ''/'' @ rel) \<longrightarrow>
         files w' (assetsDir opts @ ''/'' @ rel) = Some c) \<and>
      (sublist ''inline'' (distDir e @ ''/'' @ rel) \<longrightarrow>
         files w' (assetsDir opts @ ''/'' @ rel) = files w (assetsDir opts @ ''/'' @ rel))"
      using copySync_files [OF cs, of "assetsDir opts @ ''/'' @ rel"] a(3,4) root 3
      by (auto simp: path_below_self)
  qed
  have 5: "copyAssets e w opts = (r, w') \<and> path_below (assetsDir opts) q = None \<longrightarrow> files w' q = files w q"
  proof (cases "shouldCopyAssets e w (assetsDir opts)")
    case True
    show ?thesis
    proof (intro impI, elim conjE)
      assume a: "copyAssets e w opts = (r, w')" "path_below (assetsDir opts) q = None"
      from a(1) True have "copySync w (distDir e) (assetsDir opts) notInline = (r, w')"
        by (simp add: copyAssets_def)
      from copySync_files [OF this, of q] a(2) show "files w' q = files w q" by simp
    qed
  next
    case False
    then show ?thesis by (auto simp: copyAssets_def)
  qed
  have 6: "shouldCopyAssets e w (assetsDir opts) \<and> dirs w (distDir e) \<and> \<not> denied w (distDir e) \<and>
    \<not> denied w (assetsDir opts) \<longrightarrow> fst (copyAssets e w opts) = Inr ()"
    by (simp add: copyAssets_def copySync_ok)
  show ?thesis
    by (intro conjI) (rule 1 2 3 4 5 6)+
qed

lemma distDir_posix: "distDir posix_env = ''/pkg/dist''"
  by (simp add: distDir_def posix_env_fields posix_join_samples)

lemma inline_samples:
  "\<not> sublist ''inline'' ''/pkg/dist/app.css''"
  "\<not> sublist ''inline'' ''/pkg/dist/app.js''"
  "sublist ''inline'' ''/pkg/dist/app.inline.css''"
  by (simp_all add: sublist_Cons_right)

lemma dist_files_samples:
  "dist_files ''/pkg/dist/app.css'' = Some ''/*! mochawesome-report-generator 3.1.1 */ body{}''"
  "dist_files ''/pkg/dist/app.inline.css'' = Some ''body{margin:0}''"
  "dist_files ''/pkg/dist/app.js'' = Some ''void 0;''"
  "dist_files ''/work/out/assets/app.inline.css'' = None"
  "dist_files ''/work/out/assets'' = None"
  by (simp_all add: dist_files_def)

lemma shouldCopyAssets_fresh: "shouldCopyAssets posix_env fresh_world ''/work/out/assets''"
  by (simp add: shouldCopyAssets_def existsSync_def fresh_world_fields dist_files_samples)

theorem copyAssets_not_inline_witness:
  "fst (copyAssets posix_env fresh_world
          (default_getMergedOptions [''assetsDir'' \<mapsto> JStr ''/work/out/assets''])) = Inr () \<and>
   files (snd (copyAssets posix_env fresh_world
          (default_getMergedOptions [''assetsDir'' \<mapsto> JStr ''/work/out/assets''])))
     ''/work/out/assets/app.css'' = Some ''/*! mochawesome-report-generator 3.1.1 */ body{}'' \<and>
   files (snd (copyAssets posix_env fresh_world
          (default_getMergedOptions [''assetsDir'' \<mapsto> JStr ''/work/out/assets''])))
     ''/work/out/assets/app.inline.css'' = None"
proof -
  let ?opts = "default_getMergedOptions [''assetsDir'' \<mapsto> JStr ''/work/out/assets'']"
  let ?r = "copyAssets posix_env fresh_world ?opts"
  have a: "assetsDir ?opts = ''/work/out/assets''"
    by (simp add: default_getMergedOptions_def str_option_def)
  have should: "shouldCopyAssets posix_env fresh_world (assetsDir ?opts)"
    unfolding a by (rule shouldCopyAssets_fresh)
  have d: "dirs fresh_world (distDir posix_env)" "\<not> denied fresh_world (distDir posix_env)"
    "\<not> denied fresh_world (assetsDir ?opts)"
    by (simp_all add: distDir_posix fresh_world_fields)
  have 1: "fst ?r = Inr ()"
    using copyAssets_not_inline [of posix_env fresh_world ?opts] should d by blast
  then have r: "?r = (Inr (), snd ?r)"
    by (simp add: prod_eq_iff)
  have 2: "files (snd ?r) ''/work/out/assets/app.css'' =
      Some ''/*! mochawesome-report-generator 3.1.1 */ body{}''"
  proof -
    have "files fresh_world (distDir posix_env @ ''/'' @ ''app.css'') =
        Some ''/*! mochawesome-report-generator 3.1.1 */ body{}''"
      "\<not> sublist ''inline'' (distDir posix_env @ ''/'' @ ''app.css'')" "''app.css'' \<noteq> []"
      by (simp_all add: distDir_posix fresh_world_fields dist_files_samples inline_samples)
    then have "files (snd ?r) (assetsDir ?opts @ ''/'' @ ''app.css'') =
        Some ''/*! mochawesome-report-generator 3.1.1 */ body{}''"
      using copyAssets_not_inline [of posix_env fresh_world ?opts "''app.css''" "snd ?r"
          "''/*! mochawesome-report-generator 3.1.1 */ body{}''"] should r
      by blast
    then show ?thesis by (simp add: a)
  qed
  have 3: "files (snd ?r) ''/work/out/assets/app.inline.css'' = None"
  proof -
    have "files fresh_world (distDir posix_env @ ''/'' @ ''app.inline.css'') = Some ''body{margin:0}''"
      "sublist ''inline'' (distDir posix_env @ ''/'' @ ''app.inline.css'')" "''app.inline.css'' \<noteq> []"
      by (simp_all add: distDir_posix fresh_world_fields dist_files_samples inline_samples)
    then have "files (snd ?r) (assetsDir ?opts @ ''/'' @ ''app.inline.css'') =
        files fresh_world (assetsDir ?opts @ ''/'' @ ''app.inline.css'')"
      using copyAssets_not_inline [of posix_env fresh_world ?opts "''app.inline.css''" "snd ?r"
          "''body{margin:0}''"] should r
      by blast
    then show ?thesis by (simp add: a fresh_world_fields dist_files_samples)
  qed
  show ?thesis using 1 2 3 by simp
qed

subsection \<open>Unique names\<close>

lemma digit_char_value: "d < 10 \<Longrightarrow> of_char (digit_char d) = 48 + d"
proof -
  assume "d < 10"
  then have "d \<in> {0, 1, 2, 3, 4, 5, 6, 7, 8, 9}" by auto
  then show ?thesis by (auto simp: digit_char_def)
qed

lemma show_nat_nonempty: "show_nat n \<noteq> []"
  by (subst show_nat.simps) simp

lemma read_show_nat:
  "foldl (\<lambda>a c. 10 * a + (of_char c - 48)) 0 (show_nat n) = n"
proof (induction n rule: show_nat.induct)
  case (1 n)
  show ?case
  proof (cases "n < 10")
    case True
    then show ?thesis by (subst show_nat.simps) (simp add: digit_char_value)
  next
    case False
    then have "foldl (\<lambda>a c. 10 * a + (of_char c - 48)) 0 (show_nat (n div 10)) = n div 10"
      using 1 by simp
    then show ?thesis
      using False by (subst show_nat.simps) (simp add: digit_char_value)
  qed
qed

lemma read_zeros:
  "foldl (\<lambda>a c. 10 * a + (of_char c - 48)) (0::nat) (replicate k (CHR ''0'') @ s) =
   foldl (\<lambda>a c. 10 * a + (of_char c - 48)) 0 s"
  by (induction k) simp_all

lemma read_padNum: "foldl (\<lambda>a c. 10 * a + (of_char c - 48)) 0 (padNum n width) = n"
  by (simp only: padNum_def read_zeros read_show_nat)

lemma padNum_inj: "padNum n width = padNum m width \<Longrightarrow> n = m"
  by (metis read_padNum)

lemma padNum_nonempty: "padNum n width \<noteq> []"
  by (simp add: padNum_def show_nat_nonempty)

lemma uniqueName_inj: "inj (uniqueName parts)"
proof (rule injI)
  fix n m assume eq: "uniqueName parts n = uniqueName parts m"
  have zero: "p_head parts @ p_tail parts \<noteq>
      p_head parts @ p_padLeft parts @ padNum k (p_pad parts) @ p_padRight parts @ p_tail parts" for k
  proof
    assume "p_head parts @ p_tail parts =
      p_head parts @ p_padLeft parts @ padNum k (p_pad parts) @ p_padRight parts @ p_tail parts"
    then have "length (p_tail parts) =
      length (p_padLeft parts @ padNum k (p_pad parts) @ p_padRight parts @ p_tail parts)"
      by simp
    then show False using padNum_nonempty [of k "p_pad parts"] by simp
  qed
  show "n = m"
  proof (cases "n = 0 \<or> m = 0")
    case True
    then show ?thesis using eq zero [of n] zero [of m]
      by (auto simp: uniqueName_def split: if_splits)
  next
    case False
    with eq have "padNum n (p_pad parts) = padNum m (p_pad parts)"
      by (simp add: uniqueName_def)
    then show ?thesis by (rule padNum_inj)
  qed
qed

lemma firstFree_reaches:
  "m \<le> n \<Longrightarrow> \<not> taken (name n) \<Longrightarrow> (\<forall>k. m \<le> k \<and> k < n \<longrightarrow> taken (name k)) \<Longrightarrow>
   firstFree name taken m = Some n"
proof (induction "n - m" arbitrary: m)
  case 0
  then have "m = n" by simp
  with 0 show ?case by (subst firstFree.simps) simp
next
  case (Suc d)
  then have "m < n" by simp
  with Suc.prems have "taken (name m)" by simp
  moreover have "firstFree name taken (Suc m) = Some n"
    using Suc \<open>m < n\<close> by (intro Suc.hyps) auto
  ultimately show ?case by (subst firstFree.simps) simp
qed

lemma firstFree_sound:
  assumes "firstFree name taken m = Some n"
  shows "m \<le> n \<and> \<not> taken (name n) \<and> (\<forall>k. m \<le> k \<and> k < n \<longrightarrow> taken (name k))"
  using assms
proof (induction rule: firstFree.raw_induct [rotated 1, consumes 1])
  case (1 search name taken m n)
  show ?case
  proof (cases "taken (name m)")
    case True
    with 1(2) have "search name taken (Suc m) = Some n" by simp
    from 1(1) [OF this]
    have "Suc m \<le> n" "\<not> taken (name n)" "\<forall>k. Suc m \<le> k \<and> k < n \<longrightarrow> taken (name k)"
      by auto
    moreover have "taken (name k)" if "m \<le> k" "k < n" for k
      using that True calculation(3) by (cases "k = m") auto
    ultimately show ?thesis by auto
  next
    case False
    with 1(2) show ?thesis by auto
  qed
qed

lemma free_name_exists:
  assumes "finite {p. taken p}" "inj name"
  shows "\<exists>n :: nat. \<not> taken (name n)"
proof (rule ccontr)
  assume "\<not> (\<exists>n. \<not> taken (name n))"
  then have "range name \<subseteq> {p. taken p}" by auto
  with assms(1) have "finite (range name)" by (rule rev_finite_subset)
  with assms(2) have "finite (UNIV :: nat set)" by (rule finite_imageD [rotated])
  then show False by simp
qed

lemma firstFree_total:
  assumes "finite {p. taken p}" "inj name"
  shows "\<exists>n. firstFree name taken 0 = Some n \<and> \<not> taken (name n) \<and> (\<forall>k<n. taken (name k))"
proof -
  from free_name_exists [OF assms] obtain n0 where "\<not> taken (name n0)" ..
  define n where "n = (LEAST n. \<not> taken (name n))"
  have free: "\<not> taken (name n)"
    unfolding n_def using \<open>\<not> taken (name n0)\<close> by (rule LeastI)
  have below: "\<forall>k<n. taken (name k)"
  proof (intro allI impI)
    fix k assume "k < n"
    then have "\<not> \<not> taken (name k)" unfolding n_def by (rule not_less_Least)
    then show "taken (name k)" by simp
  qed
  have "firstFree name taken 0 = Some n"
    using free below by (intro firstFree_reaches) auto
  with free below show ?thesis by blast
qed

lemma parsePattern_no_brace: "CHR ''{'' \<notin> set s \<Longrightarrow> parsePattern s = None"
  by (induction s) (auto simp: placeholder_at_def Let_def)

lemma placeholder_at_inserted:
  "placeholder_at (''{_###}'' @ t) =
     Some \<lparr>p_head = [], p_padLeft = ''_'', p_pad = 3, p_padRight = [], p_tail = t\<rparr>"
  by (simp add: placeholder_at_def plain_char_def is_hash_def)

lemma parsePattern_inserted:
  "CHR ''{'' \<notin> set t \<Longrightarrow>
   parsePattern (stem @ ''{_###}'' @ t) =
     Some \<lparr>p_head = stem, p_padLeft = ''_'', p_pad = 3, p_padRight = [], p_tail = t\<rparr>"
proof (induction stem)
  case Nil
  then have "parsePattern (''_###}'' @ t) = None"
    by (intro parsePattern_no_brace) simp
  then show ?case
    using placeholder_at_inserted [of t] by simp
next
  case (Cons c stem)
  then show ?case by simp
qed

lemma insertUniquePlaceholder_last_dot:
  "CHR ''.'' \<notin> set ext \<Longrightarrow>
   insertUniquePlaceholder (stem @ CHR ''.'' # ext) = stem @ ''{_###}'' @ CHR ''.'' # ext"
  by (simp add: insertUniquePlaceholder_def fileExtRegex_exec_last_dot)

lemma uniqueName_numbered:
  "uniqueName \<lparr>p_head = stem, p_padLeft = ''_'', p_pad = 3, p_padRight = [], p_tail = CHR ''.'' # ext\<rparr> =
   numbered stem ext"
  by (rule ext) (simp add: uniqueName_def numbered_def)

lemma numbered_inj: "numbered stem ext n = numbered stem ext m \<Longrightarrow> n = m"
  using uniqueName_inj [THEN injD] unfolding uniqueName_numbered [symmetric] by blast

lemma numbered_samples:
  "numbered stem ext 0 = stem @ CHR ''.'' # ext"
  "numbered stem ext 1 = stem @ ''_001'' @ CHR ''.'' # ext"
  "numbered stem ext 2 = stem @ ''_002'' @ CHR ''.'' # ext"
  "numbered stem ext 12 = stem @ ''_012'' @ CHR ''.'' # ext"
  "numbered stem ext 1234 = stem @ ''_1234'' @ CHR ''.'' # ext"
  by (simp_all add: numbered_def padNum_def show_nat.simps digit_char_def numeral_2_eq_2)

lemma numbered_ends: "\<exists>pre. numbered stem ext n = pre @ CHR ''.'' # ext"
  by (cases "n = 0") (auto simp: numbered_def)

subsection \<open>Writing files\<close>

lemma outputFile_ok:
  "\<not> denied w p \<Longrightarrow>
   outputFile w p d =
     (Inr (), w\<lparr>files := (files w)(p \<mapsto> d), dirs := (\<lambda>q. dirs w q \<or> q \<in> set (parent_dirs p))\<rparr>)"
  by (simp add: outputFile_def)

lemma outputFile_denied: "denied w p \<Longrightarrow> outputFile w p d = (Inl (WriteError p), w)"
  by (simp add: outputFile_def)

lemma outputFile_result:
  "outputFile w p d = (r, w') \<Longrightarrow>
   (r = Inr () \<and> \<not> denied w p \<and> files w' = (files w)(p \<mapsto> d) \<or>
    r = Inl (WriteError p) \<and> denied w p \<and> w' = w) \<and>
   opened w' = opened w \<and> denied w' = denied w \<and> ticks w' = ticks w"
  by (auto simp: outputFile_def split: if_splits)

lemma outputFile_finite:
  assumes "finite {q. existsSync w q}" "outputFile w p d = (r, w')"
  shows "finite {q. existsSync w' q}"
proof -
  have "{q. existsSync w' q} \<subseteq> {q. existsSync w q} \<union> insert p (set (parent_dirs p))"
    using assms(2) by (auto simp: outputFile_def existsSync_def split: if_splits)
  moreover have "finite ({q. existsSync w q} \<union> insert p (set (parent_dirs p)))"
    using assms(1) by simp
  ultimately show ?thesis by (rule finite_subset)
qed

text \<open>What a save leaves behind, whichever way it writes.\<close>

lemma saveFile_result:
  assumes "saveFile w (Some f) d ow = Some (r, w')"
  shows "opened w' = opened w \<and> denied w' = denied w \<and> ticks w' = ticks w \<and>
    (case r of
       Inl err \<Rightarrow> w' = w
     | Inr name \<Rightarrow> files w' = (files w)(name \<mapsto> d) \<and> \<not> denied w name \<and>
         (if truthy ow then name = f
          else (case parsePattern (insertUniquePlaceholder f) of
                  None \<Rightarrow> name = insertUniquePlaceholder f
                | Some parts \<Rightarrow> \<exists>n. name = uniqueName parts n \<and> \<not> existsSync w name \<and>
                    (\<forall>k<n. existsSync w (uniqueName parts k)))))"
proof (cases "truthy ow")
  case True
  obtain r0 w0 where o: "outputFile w f d = (r0, w0)" by (cases "outputFile w f d")
  from assms True o have "r = (case r0 of Inl err \<Rightarrow> Inl err | Inr u \<Rightarrow> Inr f)" "w' = w0"
    by (auto simp: saveFile_def split: sum.splits)
  with outputFile_result [OF o] True show ?thesis
    by (auto split: sum.splits)
next
  case False
  show ?thesis
  proof (cases "parsePattern (insertUniquePlaceholder f)")
    case None
    let ?p = "insertUniquePlaceholder f"
    obtain r0 w0 where o: "outputFile w ?p d = (r0, w0)" by (cases "outputFile w ?p d")
    from assms False None o have "r = (case r0 of Inl err \<Rightarrow> Inl err | Inr u \<Rightarrow> Inr ?p)" "w' = w0"
      by (auto simp: saveFile_def writeFileUnique_def split: sum.splits)
    with outputFile_result [OF o] False None show ?thesis
      by (auto split: sum.splits)
  next
    case (Some parts)
    from assms False Some obtain n where n: "firstFree (uniqueName parts) (existsSync w) 0 = Some n"
      by (auto simp: saveFile_def writeFileUnique_def split: option.splits)
    let ?p = "uniqueName parts n"
    obtain r0 w0 where o: "outputFile w ?p d = (r0, w0)" by (cases "outputFile w ?p d")
    from assms False Some n o have "r = (case r0 of Inl err \<Rightarrow> Inl err | Inr u \<Rightarrow> Inr ?p)" "w' = w0"
      by (auto simp: saveFile_def writeFileUnique_def split: sum.splits)
    with outputFile_result [OF o] False Some firstFree_sound [OF n] show ?thesis
      by (auto split: sum.splits)
  qed
qed

lemma saveFile_undefined: "saveFile w None d ow = Some (Inl TypeError, w)"
  by (simp add: saveFile_def)

lemma saveFile_overwrite:
  "truthy ow \<Longrightarrow> \<not> denied w f \<Longrightarrow>
   saveFile w (Some f) d ow =
     Some (Inr f, w\<lparr>files := (files w)(f \<mapsto> d), dirs := (\<lambda>q. dirs w q \<or> q \<in> set (parent_dirs f))\<rparr>)"
  by (simp add: saveFile_def outputFile_ok)

lemma saveFile_numbered:
  assumes "CHR ''.'' \<notin> set ext" "CHR ''{'' \<notin> set ext" "\<not> truthy ow"
    and "finite {p. existsSync w p}"
  shows "\<exists>n. \<not> existsSync w (numbered stem ext n) \<and> (\<forall>k<n. existsSync w (numbered stem ext k)) \<and>
    saveFile w (Some (stem @ CHR ''.'' # ext)) d ow =
      Some (case outputFile w (numbered stem ext n) d of
              (Inl err, w') \<Rightarrow> (Inl err, w')
            | (Inr u, w') \<Rightarrow> (Inr (numbered stem ext n), w'))"
proof -
  let ?parts = "\<lparr>p_head = stem, p_padLeft = ''_'', p_pad = 3, p_padRight = [], p_tail = CHR ''.'' # ext\<rparr>"
  have "CHR ''{'' \<notin> set (CHR ''.'' # ext)"
    using assms(2) by simp
  then have p: "parsePattern (insertUniquePlaceholder (stem @ CHR ''.'' # ext)) = Some ?parts"
    unfolding insertUniquePlaceholder_last_dot [OF assms(1)] by (rule parsePattern_inserted)
  from firstFree_total [OF assms(4) uniqueName_inj, of ?parts]
  obtain n where n: "firstFree (uniqueName ?parts) (existsSync w) 0 = Some n"
    "\<not> existsSync w (uniqueName ?parts n)" "\<forall>k<n. existsSync w (uniqueName ?parts k)"
    by blast
  have "saveFile w (Some (stem @ CHR ''.'' # ext)) d ow =
      Some (case outputFile w (uniqueName ?parts n) d of
              (Inl err, w') \<Rightarrow> (Inl err, w')
            | (Inr u, w') \<Rightarrow> (Inr (uniqueName ?parts n), w'))"
    using assms(3) p n(1) by (simp add: saveFile_def writeFileUnique_def)
  with n(2,3) have "\<not> existsSync w (uniqueName ?parts n) \<and>
    (\<forall>k<n. existsSync w (uniqueName ?parts k)) \<and>
    saveFile w (Some (stem @ CHR ''.'' # ext)) d ow =
      Some (case outputFile w (uniqueName ?parts n) d of
              (Inl err, w') \<Rightarrow> (Inl err, w')
            | (Inr u, w') \<Rightarrow> (Inr (uniqueName ?parts n), w'))"
    by blast
  then show ?thesis unfolding uniqueName_numbered by (rule exI)
qed

lemma show_nat_length_mono: "n \<le> m \<Longrightarrow> length (show_nat n) \<le> length (show_nat m)"
proof (induction m arbitrary: n rule: show_nat.induct)
  case (1 m)
  show ?case
  proof (cases "m < 10")
    case True
    with 1(2) have "n < 10" by simp
    with True show ?thesis by (simp add: show_nat.simps)
  next
    case False
    show ?thesis
    proof (cases "n < 10")
      case True
      with False show ?thesis by (simp add: show_nat.simps [of n] show_nat.simps [of m])
    next
      case nbig: False
      have "n div 10 \<le> m div 10" using 1(2) by (rule div_le_mono)
      from 1(1) [OF False this] False nbig show ?thesis
        by (simp add: show_nat.simps [of n] show_nat.simps [of m])
    qed
  qed
qed

lemma numbered_length_mono: "length (numbered stem ext n) \<le> length (numbered stem ext (Suc n))"
  using show_nat_length_mono [of n "Suc n"]
  by (auto simp: numbered_def padNum_def)

lemma parent_dirs_shorter: "q \<in> set (parent_dirs p) \<Longrightarrow> length q < length p"
  by (auto simp: parent_dirs_def)

lemma outputFile_exists:
  "outputFile w p d = (Inr (), w') \<Longrightarrow>
   existsSync w' q \<longleftrightarrow> existsSync w q \<or> q = p \<or> q \<in> set (parent_dirs p)"
  by (auto simp: outputFile_def existsSync_def split: if_splits)

lemma saved_world_fields:
  "files (saved_world w p d) = (files w)(p \<mapsto> d)"
  "dirs (saved_world w p d) = (\<lambda>q. dirs w q \<or> q \<in> set (parent_dirs p))"
  "denied (saved_world w p d) = denied w"
  "opened (saved_world w p d) = opened w"
  "ticks (saved_world w p d) = ticks w"
  by (simp_all add: saved_world_def)

lemma outputFile_saved: "\<not> denied w p \<Longrightarrow> outputFile w p d = (Inr (), saved_world w p d)"
  by (simp add: outputFile_ok saved_world_def)

lemma saved_world_exists:
  "existsSync (saved_world w p d) q \<longleftrightarrow> existsSync w q \<or> q = p \<or> q \<in> set (parent_dirs p)"
  by (auto simp: existsSync_def saved_world_fields)

lemma saved_world_finite:
  assumes "finite {q. existsSync w q}"
  shows "finite {q. existsSync (saved_world w p d) q}"
proof -
  have "{q. existsSync (saved_world w p d) q} = {q. existsSync w q} \<union> insert p (set (parent_dirs p))"
    by (auto simp: saved_world_exists)
  with assms show ?thesis by simp
qed

text \<open>
  A save without overwriting goes to the \<open>n\<close>-th name when that one is free and all the
  names before it are taken.
\<close>

lemma saveFile_at:
  assumes "CHR ''.'' \<notin> set ext" "CHR ''{'' \<notin> set ext" "\<not> truthy ow"
    and "\<not> existsSync w (numbered stem ext n)" "\<forall>k<n. existsSync w (numbered stem ext k)"
    and "\<not> denied w (numbered stem ext n)"
  shows "saveFile w (Some (stem @ CHR ''.'' # ext)) d ow =
    Some (Inr (numbered stem ext n), saved_world w (numbered stem ext n) d)"
proof -
  let ?parts = "\<lparr>p_head = stem, p_padLeft = ''_'', p_pad = 3, p_padRight = [], p_tail = CHR ''.'' # ext\<rparr>"
  have "CHR ''{'' \<notin> set (CHR ''.'' # ext)"
    using assms(2) by simp
  then have p: "parsePattern (insertUniquePlaceholder (stem @ CHR ''.'' # ext)) = Some ?parts"
    unfolding insertUniquePlaceholder_last_dot [OF assms(1)] by (rule parsePattern_inserted)
  have "firstFree (numbered stem ext) (existsSync w) 0 = Some n"
    using assms(4,5) by (intro firstFree_reaches) auto
  then have n: "firstFree (uniqueName ?parts) (existsSync w) 0 = Some n"
    by (simp only: uniqueName_numbered)
  have "saveFile w (Some (stem @ CHR ''.'' # ext)) d ow =
      Some (case outputFile w (uniqueName ?parts n) d of
              (Inl err, w') \<Rightarrow> (Inl err, w')
            | (Inr u, w') \<Rightarrow> (Inr (uniqueName ?parts n), w'))"
    using assms(3) p n by (simp add: saveFile_def writeFileUnique_def)
  then show ?thesis
    unfolding uniqueName_numbered by (simp add: outputFile_saved [OF assms(6)])
qed

text \<open>
  C7. Saving a file \<open>stem.ext\<close> with a falsy \<^verbatim>\<open>overwrite\<close> (on a disk that holds finitely
  many entries and refuses no write; \<open>ext\<close> is an extension: text without a dot, a path
  separator or an opening brace) puts the placeholder \<^verbatim>\<open>{_###}\<close> right before the extension and writes to the
  first of the names \<open>stem.ext\<close>, \<open>stem_001.ext\<close>, \<open>stem_002.ext\<close>, ... that does not
  exist; it returns that name, and every file that was there keeps its content. A second
  save of the same file goes to a later name of the sequence, the next one when that is
  free, so that the two saves leave two different files, each with its data. When
  \<open>stem.ext\<close> exists before the two saves, neither of them touches it: the first save
  goes to \<open>stem_001.ext\<close> or later and the second to \<open>stem_002.ext\<close> or later, never to
  \<open>stem_001.ext\<close>; with the two numbered names free they are \<open>stem_001.ext\<close> and
  \<open>stem_002.ext\<close>. The second save goes to \<open>stem_001.ext\<close> when \<open>stem.ext\<close> and
  \<open>stem_001.ext\<close> are both free before the first save, which then takes \<open>stem.ext\<close>.
\<close>

theorem saveFile_without_overwrite:
  assumes "CHR ''.'' \<notin> set ext" and "CHR ''{'' \<notin> set ext"
    and "\<not> truthy ow"
    and "finite {p. existsSync w p}"
    and "\<forall>p. \<not> denied w p"
    and "CHR ''/'' \<notin> set ext"
  shows "insertUniquePlaceholder (stem @ CHR ''.'' # ext) = stem @ ''{_###}'' @ CHR ''.'' # ext \<and>
    (\<exists>n w1.
       saveFile w (Some (stem @ CHR ''.'' # ext)) d ow = Some (Inr (numbered stem ext n), w1) \<and>
       \<not> existsSync w (numbered stem ext n) \<and> (\<forall>k<n. existsSync w (numbered stem ext k)) \<and>
       files w1 = (files w)(numbered stem ext n \<mapsto> d) \<and>
       (\<forall>p c. files w p = Some c \<longrightarrow> files w1 p = Some c) \<and>
       (\<exists>m w2.
          saveFile w1 (Some (stem @ CHR ''.'' # ext)) d' ow = Some (Inr (numbered stem ext m), w2) \<and>
          n < m \<and> numbered stem ext m \<noteq> numbered stem ext n \<and>
          (\<not> existsSync w (numbered stem ext (Suc n)) \<longrightarrow> m = Suc n) \<and>
          files w2 = (files w1)(numbered stem ext m \<mapsto> d') \<and>
          files w2 (numbered stem ext n) = Some d \<and>
          (\<forall>p c. files w p = Some c \<longrightarrow> files w2 p = Some c) \<and>
          (existsSync w (stem @ CHR ''.'' # ext) \<longrightarrow>
             1 \<le> n \<and> 2 \<le> m \<and>
             numbered stem ext n \<noteq> stem @ CHR ''.'' # ext \<and>
             numbered stem ext m \<noteq> stem @ CHR ''.'' # ext \<and>
             numbered stem ext m \<noteq> stem @ ''_001'' @ CHR ''.'' # ext) \<and>
          (existsSync w (stem @ CHR ''.'' # ext) \<and>
           \<not> existsSync w (stem @ ''_001'' @ CHR ''.'' # ext) \<and>
           \<not> existsSync w (stem @ ''_002'' @ CHR ''.'' # ext) \<longrightarrow> n = 1 \<and> m = 2) \<and>
          (\<not> existsSync w (stem @ CHR ''.'' # ext) \<and>
           \<not> existsSync w (stem @ ''_001'' @ CHR ''.'' # ext) \<longrightarrow> n = 0 \<and> m = 1))) \<and>
    numbered stem ext 0 = stem @ CHR ''.'' # ext \<and>
    numbered stem ext 1 = stem @ ''_001'' @ CHR ''.'' # ext \<and>
    numbered stem ext 2 = stem @ ''_002'' @ CHR ''.'' # ext"
proof -
  let ?f = "stem @ CHR ''.'' # ext"
  let ?name = "numbered stem ext"
  have name0: "?name 0 = ?f" and name1: "?name (Suc 0) = stem @ ''_001'' @ CHR ''.'' # ext"
    and name2: "?name (Suc (Suc 0)) = stem @ ''_002'' @ CHR ''.'' # ext"
    using numbered_samples(1-3) [of stem ext] by (simp_all add: numeral_2_eq_2)
  \<comment> \<open>the first save\<close>
  from saveFile_numbered [OF assms(1-4), of stem d]
  obtain n where n: "\<not> existsSync w (?name n)" "\<forall>k<n. existsSync w (?name k)"
    and s1: "saveFile w (Some ?f) d ow =
      Some (case outputFile w (?name n) d of
              (Inl err, w') \<Rightarrow> (Inl err, w') | (Inr u, w') \<Rightarrow> (Inr (?name n), w'))"
    by blast
  define w1 where "w1 = saved_world w (?name n) d"
  have o1: "outputFile w (?name n) d = (Inr (), w1)"
    using assms(5) by (simp add: outputFile_saved w1_def)
  have r1: "saveFile w (Some ?f) d ow = Some (Inr (?name n), w1)"
    using s1 o1 by simp
  have f1: "files w1 = (files w)(?name n \<mapsto> d)" by (simp add: w1_def saved_world_fields)
  have free: "files w (?name n) = None"
    using n(1) by (simp add: existsSync_def)
  have keep1: "\<forall>p c. files w p = Some c \<longrightarrow> files w1 p = Some c"
    using free by (auto simp: f1)
  \<comment> \<open>the second save\<close>
  have fin1: "finite {p. existsSync w1 p}"
    using assms(4) o1 by (rule outputFile_finite)
  have den1: "\<forall>p. \<not> denied w1 p"
    using assms(5) by (simp add: w1_def saved_world_fields)
  from saveFile_numbered [OF assms(1-3) fin1, of stem d']
  obtain m where m: "\<not> existsSync w1 (?name m)" "\<forall>k<m. existsSync w1 (?name k)"
    and s2: "saveFile w1 (Some ?f) d' ow =
      Some (case outputFile w1 (?name m) d' of
              (Inl err, w') \<Rightarrow> (Inl err, w') | (Inr u, w') \<Rightarrow> (Inr (?name m), w'))"
    by blast
  define w2 where "w2 = saved_world w1 (?name m) d'"
  have o2: "outputFile w1 (?name m) d' = (Inr (), w2)"
    using den1 by (simp add: outputFile_saved w2_def)
  have r2: "saveFile w1 (Some ?f) d' ow = Some (Inr (?name m), w2)"
    using s2 o2 by simp
  have ex1: "existsSync w1 q \<longleftrightarrow> existsSync w q \<or> q = ?name n \<or> q \<in> set (parent_dirs (?name n))" for q
    using o1 by (rule outputFile_exists)
  have taken: "existsSync w1 (?name k)" if "k \<le> n" for k
    using that n(2) ex1 [of "?name k"] by (cases "k = n") auto
  have nm: "n < m"
  proof (rule ccontr)
    assume "\<not> n < m"
    then have "m \<le> n" by simp
    then have "existsSync w1 (?name m)" by (rule taken)
    with m(1) show False by simp
  qed
  then have diff: "?name m \<noteq> ?name n"
    using numbered_inj [of stem ext m n] by auto
  have next_free: "m = Suc n" if "\<not> existsSync w (?name (Suc n))"
  proof -
    have "?name (Suc n) \<noteq> ?name n"
      using numbered_inj [of stem ext "Suc n" n] by auto
    moreover have "?name (Suc n) \<notin> set (parent_dirs (?name n))"
      using parent_dirs_shorter [of "?name (Suc n)" "?name n"] numbered_length_mono [of stem ext n]
      by auto
    ultimately have "\<not> existsSync w1 (?name (Suc n))"
      using that ex1 [of "?name (Suc n)"] by simp
    with m(2) have "\<not> Suc n < m" by blast
    with nm show ?thesis by simp
  qed
  have f2: "files w2 = (files w1)(?name m \<mapsto> d')" by (simp add: w2_def saved_world_fields)
  have first_kept: "files w2 (?name n) = Some d"
    using diff by (simp add: f2 f1)
  have free2: "files w1 (?name m) = None"
    using m(1) by (simp add: existsSync_def)
  have keep2: "\<forall>p c. files w p = Some c \<longrightarrow> files w2 p = Some c"
    using keep1 free2 by (auto simp: f2)
  \<comment> \<open>the file that was there\<close>
  have there: "1 \<le> n \<and> 2 \<le> m \<and> ?name n \<noteq> ?f \<and> ?name m \<noteq> ?f \<and>
      ?name m \<noteq> stem @ ''_001'' @ CHR ''.'' # ext" if e: "existsSync w ?f"
  proof -
    have n1: "1 \<le> n"
    proof (rule ccontr)
      assume "\<not> 1 \<le> n"
      then have "n = 0" by simp
      with n(1) e show False by (simp add: name0)
    qed
    with nm have m2: "2 \<le> m" by simp
    have "?name n \<noteq> ?name 0" "?name m \<noteq> ?name 0" "?name m \<noteq> ?name (Suc 0)"
      using n1 m2 numbered_inj [of stem ext n 0] numbered_inj [of stem ext m 0]
        numbered_inj [of stem ext m "Suc 0"] by auto
    with n1 m2 show ?thesis by (simp add: name0 name1)
  qed
  have beside: "n = 1 \<and> m = 2"
    if e: "existsSync w ?f \<and> \<not> existsSync w (stem @ ''_001'' @ CHR ''.'' # ext) \<and>
      \<not> existsSync w (stem @ ''_002'' @ CHR ''.'' # ext)"
  proof -
    from e there have n1: "1 \<le> n" by blast
    have "\<not> 1 < n"
    proof
      assume "1 < n"
      then have "Suc 0 < n" by simp
      with n(2) have "existsSync w (?name (Suc 0))" by blast
      with e show False by (simp add: name1)
    qed
    with n1 have n_eq: "n = 1" by simp
    have "\<not> existsSync w (?name (Suc n))"
      using e unfolding n_eq One_nat_def name2 by simp
    then have "m = Suc n" by (rule next_free)
    with n_eq show ?thesis by simp
  qed
  have fresh: "n = 0 \<and> m = 1"
    if e: "\<not> existsSync w ?f \<and> \<not> existsSync w (stem @ ''_001'' @ CHR ''.'' # ext)"
  proof -
    have n_eq: "n = 0"
    proof (rule ccontr)
      assume "n \<noteq> 0"
      then have "0 < n" by simp
      with n(2) have "existsSync w (?name 0)" by blast
      with e show False by (simp add: name0)
    qed
    have "\<not> existsSync w (?name (Suc n))"
      using e unfolding n_eq name1 by simp
    then have "m = Suc n" by (rule next_free)
    with n_eq show ?thesis by simp
  qed
  have second: "\<exists>m w2.
          saveFile w1 (Some ?f) d' ow = Some (Inr (?name m), w2) \<and>
          n < m \<and> ?name m \<noteq> ?name n \<and>
          (\<not> existsSync w (?name (Suc n)) \<longrightarrow> m = Suc n) \<and>
          files w2 = (files w1)(?name m \<mapsto> d') \<and>
          files w2 (?name n) = Some d \<and>
          (\<forall>p c. files w p = Some c \<longrightarrow> files w2 p = Some c) \<and>
          (existsSync w ?f \<longrightarrow>
             1 \<le> n \<and> 2 \<le> m \<and> ?name n \<noteq> ?f \<and> ?name m \<noteq> ?f \<and>
             ?name m \<noteq> stem @ ''_001'' @ CHR ''.'' # ext) \<and>
          (existsSync w ?f \<and>
           \<not> existsSync w (stem @ ''_001'' @ CHR ''.'' # ext) \<and>
           \<not> existsSync w (stem @ ''_002'' @ CHR ''.'' # ext) \<longrightarrow> n = 1 \<and> m = 2) \<and>
          (\<not> existsSync w ?f \<and>
           \<not> existsSync w (stem @ ''_001'' @ CHR ''.'' # ext) \<longrightarrow> n = 0 \<and> m = 1)"
    using r2 nm diff next_free f2 first_kept keep2 there beside fresh
    by (intro exI [of _ m] exI [of _ w2] conjI impI) blast+
  let ?second = "\<lambda>n w1. \<exists>m w2.
          saveFile w1 (Some ?f) d' ow = Some (Inr (?name m), w2) \<and>
          n < m \<and> ?name m \<noteq> ?name n \<and>
          (\<not> existsSync w (?name (Suc n)) \<longrightarrow> m = Suc n) \<and>
          files w2 = (files w1)(?name m \<mapsto> d') \<and>
          files w2 (?name n) = Some d \<and>
          (\<forall>p c. files w p = Some c \<longrightarrow> files w2 p = Some c) \<and>
          (existsSync w ?f \<longrightarrow>
             1 \<le> n \<and> 2 \<le> m \<and> ?name n \<noteq> ?f \<and> ?name m \<noteq> ?f \<and>
             ?name m \<noteq> stem @ ''_001'' @ CHR ''.'' # ext) \<and>
          (existsSync w ?f \<and>
           \<not> existsSync w (stem @ ''_001'' @ CHR ''.'' # ext) \<and>
           \<not> existsSync w (stem @ ''_002'' @ CHR ''.'' # ext) \<longrightarrow> n = 1 \<and> m = 2) \<and>
          (\<not> existsSync w ?f \<and>
           \<not> existsSync w (stem @ ''_001'' @ CHR ''.'' # ext) \<longrightarrow> n = 0 \<and> m = 1)"
  let ?first = "\<lambda>n w1.
       saveFile w (Some ?f) d ow = Some (Inr (?name n), w1) \<and>
       \<not> existsSync w (?name n) \<and> (\<forall>k<n. existsSync w (?name k)) \<and>
       files w1 = (files w)(?name n \<mapsto> d) \<and>
       (\<forall>p c. files w p = Some c \<longrightarrow> files w1 p = Some c) \<and>
       ?second n w1"
  from second have "?second n w1" .
  with r1 n f1 keep1 have first: "?first n w1" by (intro conjI)
  have first_world: "\<exists>w1. ?first n w1" by (rule exI, rule first)
  have both: "\<exists>n w1. ?first n w1" by (rule exI, rule first_world)
  from insertUniquePlaceholder_last_dot [OF assms(1), of stem] both numbered_samples(1-3) [of stem ext]
  show ?thesis by (intro conjI)
qed

lemma fresh_world_finite: "finite {p. existsSync fresh_world p}"
proof -
  have "{p. existsSync fresh_world p} \<subseteq>
      dom dist_files \<union> set [''/'', ''/pkg'', ''/pkg/lib'', ''/pkg/dist'', ''/work'']"
    by (auto simp: existsSync_def fresh_world_fields)
  moreover have "finite (dom dist_files \<union> set [''/'', ''/pkg'', ''/pkg/lib'', ''/pkg/dist'', ''/work''])"
    by (simp add: dist_files_def)
  ultimately show ?thesis by (rule finite_subset)
qed

lemma fresh_world_free:
  "\<not> existsSync fresh_world ''/work/out/report.html''"
  "\<not> existsSync fresh_world ''/work/out/report_001.html''"
  "\<not> existsSync fresh_world ''/work/out/report_002.html''"
  by (simp_all add: existsSync_def fresh_world_fields dist_files_def)

lemma report_world_finite: "finite {p. existsSync report_world p}"
  unfolding report_world_def using fresh_world_finite by (rule saved_world_finite)

lemma report_world_names:
  "existsSync report_world ''/work/out/report.html''"
  "\<not> existsSync report_world ''/work/out/report_001.html''"
  "\<not> existsSync report_world ''/work/out/report_002.html''"
  "files report_world ''/work/out/report.html'' = Some ''old''"
  "denied report_world = (\<lambda>p. False)"
proof -
  show "existsSync report_world ''/work/out/report.html''"
    by (simp add: report_world_def saved_world_exists)
  have "q \<notin> set (parent_dirs ''/work/out/report.html'')" if "length q = 25" for q
    using parent_dirs_shorter [of q "''/work/out/report.html''"] that by auto
  then show "\<not> existsSync report_world ''/work/out/report_001.html''"
    "\<not> existsSync report_world ''/work/out/report_002.html''"
    using fresh_world_free(2,3) by (simp_all add: report_world_def saved_world_exists)
  show "files report_world ''/work/out/report.html'' = Some ''old''"
    by (simp add: report_world_def saved_world_fields)
  show "denied report_world = (\<lambda>p. False)"
    by (simp add: report_world_def saved_world_fields fresh_world_fields)
qed

theorem saveFile_without_overwrite_witness:
  "(\<exists>w1 w2.
     saveFile report_world (Some ''/work/out/report.html'') ''first'' (JBool False) =
       Some (Inr ''/work/out/report_001.html'', w1) \<and>
     saveFile w1 (Some ''/work/out/report.html'') ''second'' (JBool False) =
       Some (Inr ''/work/out/report_002.html'', w2) \<and>
     files w2 ''/work/out/report.html'' = Some ''old'' \<and>
     files w2 ''/work/out/report_001.html'' = Some ''first'' \<and>
     files w2 ''/work/out/report_002.html'' = Some ''second'') \<and>
   (\<exists>w1 w2.
     saveFile fresh_world (Some ''/work/out/report.html'') ''first'' (JBool False) =
       Some (Inr ''/work/out/report.html'', w1) \<and>
     saveFile w1 (Some ''/work/out/report.html'') ''second'' (JBool False) =
       Some (Inr ''/work/out/report_001.html'', w2) \<and>
     files w2 ''/work/out/report.html'' = Some ''first'' \<and>
     files w2 ''/work/out/report_001.html'' = Some ''second'')"
proof -
  let ?name = "numbered ''/work/out/report'' ''html''"
  let ?f = "''/work/out/report'' @ CHR ''.'' # ''html''"
  have names: "?name 0 = ''/work/out/report.html''" "?name (Suc 0) = ''/work/out/report_001.html''"
    "?name 2 = ''/work/out/report_002.html''"
    using numbered_samples(1-3) [of "''/work/out/report''" "''html''"] by simp_all
  have hyps: "CHR ''.'' \<notin> set ''html''" "CHR ''{'' \<notin> set ''html''" "\<not> truthy (JBool False)"
    "\<forall>p. \<not> denied fresh_world p" "CHR ''/'' \<notin> set ''html''" "\<forall>p. \<not> denied report_world p"
    by (simp_all add: fresh_world_fields report_world_names(5))
  \<comment> \<open>beside the report of an earlier run\<close>
  from saveFile_without_overwrite [OF hyps(1-3) report_world_finite hyps(6,5),
      of "''/work/out/report''" "''first''" "''second''"]
  obtain n w1 m w2 where
    r1: "saveFile report_world (Some ?f) ''first'' (JBool False) = Some (Inr (?name n), w1)"
    and r2: "saveFile w1 (Some ?f) ''second'' (JBool False) = Some (Inr (?name m), w2)"
    and f: "files w2 = (files w1)(?name m \<mapsto> ''second'')" "files w2 (?name n) = Some ''first''"
    and keep: "\<forall>p c. files report_world p = Some c \<longrightarrow> files w2 p = Some c"
    and nm: "existsSync report_world ?f \<and>
           \<not> existsSync report_world (''/work/out/report'' @ ''_001'' @ CHR ''.'' # ''html'') \<and>
           \<not> existsSync report_world (''/work/out/report'' @ ''_002'' @ CHR ''.'' # ''html'') \<longrightarrow>
           n = 1 \<and> m = 2"
    by blast
  have n1: "n = Suc 0" and m2: "m = 2"
    using nm report_world_names(1-3) by simp_all
  have old: "files w2 ''/work/out/report.html'' = Some ''old''"
    using keep report_world_names(4) by blast
  have beside: "\<exists>w1 w2.
     saveFile report_world (Some ''/work/out/report.html'') ''first'' (JBool False) =
       Some (Inr ''/work/out/report_001.html'', w1) \<and>
     saveFile w1 (Some ''/work/out/report.html'') ''second'' (JBool False) =
       Some (Inr ''/work/out/report_002.html'', w2) \<and>
     files w2 ''/work/out/report.html'' = Some ''old'' \<and>
     files w2 ''/work/out/report_001.html'' = Some ''first'' \<and>
     files w2 ''/work/out/report_002.html'' = Some ''second''"
    using r1 r2 f old unfolding n1 m2 names by (intro exI [of _ w1] exI [of _ w2]) simp
  \<comment> \<open>on a disk without the report\<close>
  from saveFile_without_overwrite [OF hyps(1-3) fresh_world_finite hyps(4,5),
      of "''/work/out/report''" "''first''" "''second''"]
  obtain n' v1 m' v2 where
    s1: "saveFile fresh_world (Some ?f) ''first'' (JBool False) = Some (Inr (?name n'), v1)"
    and s2: "saveFile v1 (Some ?f) ''second'' (JBool False) = Some (Inr (?name m'), v2)"
    and g: "files v2 = (files v1)(?name m' \<mapsto> ''second'')" "files v2 (?name n') = Some ''first''"
    and nm': "\<not> existsSync fresh_world ?f \<and>
           \<not> existsSync fresh_world (''/work/out/report'' @ ''_001'' @ CHR ''.'' # ''html'') \<longrightarrow>
           n' = 0 \<and> m' = 1"
    by blast
  have n0: "n' = 0" and m1: "m' = Suc 0"
    using nm' fresh_world_free(1,2) by simp_all
  have alone: "\<exists>w1 w2.
     saveFile fresh_world (Some ''/work/out/report.html'') ''first'' (JBool False) =
       Some (Inr ''/work/out/report.html'', w1) \<and>
     saveFile w1 (Some ''/work/out/report.html'') ''second'' (JBool False) =
       Some (Inr ''/work/out/report_001.html'', w2) \<and>
     files w2 ''/work/out/report.html'' = Some ''first'' \<and>
     files w2 ''/work/out/report_001.html'' = Some ''second''"
    using s1 s2 g unfolding n0 m1 names by (intro exI [of _ v1] exI [of _ v2]) simp
  from beside alone show ?thesis by (rule conjI)
qed

text \<open>
  C7 as it was stated fails in its last part: it says that of two saves made beside an
  existing \<^verbatim>\<open>report.html\<close> the second goes to the name with \<^verbatim>\<open>_001\<close>. On the disk that
  holds \<^verbatim>\<open>/work/out/report.html\<close>, the first save without overwriting takes
  \<^verbatim>\<open>/work/out/report_001.html\<close>, and the second one, with the same file name, goes to
  \<^verbatim>\<open>/work/out/report_002.html\<close>; the report that was there keeps its content.
\<close>

theorem saveFile_twice_beside_report:
  "files report_world ''/work/out/report.html'' = Some ''old'' \<and>
   saveFile report_world (Some ''/work/out/report.html'') ''first'' (JBool False) =
     Some (Inr ''/work/out/report_001.html'',
           saved_world report_world ''/work/out/report_001.html'' ''first'') \<and>
   saveFile (saved_world report_world ''/work/out/report_001.html'' ''first'')
       (Some ''/work/out/report.html'') ''second'' (JBool False) =
     Some (Inr ''/work/out/report_002.html'',
           saved_world (saved_world report_world ''/work/out/report_001.html'' ''first'')
             ''/work/out/report_002.html'' ''second'') \<and>
   ''/work/out/report_002.html'' \<noteq> ''/work/out/report_001.html'' \<and>
   files (saved_world (saved_world report_world ''/work/out/report_001.html'' ''first'')
            ''/work/out/report_002.html'' ''second'') ''/work/out/report.html'' = Some ''old''"
proof -
  let ?name = "numbered ''/work/out/report'' ''html''"
  let ?w1 = "saved_world report_world ''/work/out/report_001.html'' ''first''"
  have names: "?name 0 = ''/work/out/report.html''" "?name (Suc 0) = ''/work/out/report_001.html''"
    "?name (Suc (Suc 0)) = ''/work/out/report_002.html''"
    using numbered_samples(1-3) [of "''/work/out/report''" "''html''"]
    by (simp_all add: numeral_2_eq_2)
  have hyps: "CHR ''.'' \<notin> set ''html''" "CHR ''{'' \<notin> set ''html''" "\<not> truthy (JBool False)"
    by simp_all
  have below1: "\<forall>k<Suc 0. existsSync report_world (?name k)"
    using report_world_names(1) by (simp add: names)
  have r1: "saveFile report_world (Some ''/work/out/report.html'') ''first'' (JBool False) =
      Some (Inr ''/work/out/report_001.html'', ?w1)"
    using saveFile_at [OF hyps, of report_world "''/work/out/report''" "Suc 0" "''first''"]
      report_world_names(2,5) below1
    by (simp add: names)
  have free2: "\<not> existsSync ?w1 ''/work/out/report_002.html''"
  proof -
    have "''/work/out/report_002.html'' \<notin> set (parent_dirs ''/work/out/report_001.html'')"
      using parent_dirs_shorter [of "''/work/out/report_002.html''" "''/work/out/report_001.html''"]
      by auto
    then show ?thesis
      using report_world_names(3) by (simp add: saved_world_exists)
  qed
  have below2: "\<forall>k<Suc (Suc 0). existsSync ?w1 (?name k)"
    using report_world_names(1) by (simp add: less_Suc_eq names saved_world_exists)
  have r2: "saveFile ?w1 (Some ''/work/out/report.html'') ''second'' (JBool False) =
      Some (Inr ''/work/out/report_002.html'', saved_world ?w1 ''/work/out/report_002.html'' ''second'')"
    using saveFile_at [OF hyps, of ?w1 "''/work/out/report''" "Suc (Suc 0)" "''second''"]
      free2 below2 report_world_names(5)
    by (simp add: names saved_world_fields)
  have old: "files (saved_world ?w1 ''/work/out/report_002.html'' ''second'') ''/work/out/report.html'' =
      Some ''old''"
    using report_world_names(4) by (simp add: saved_world_fields)
  from report_world_names(4) r1 r2 old show ?thesis by simp
qed

subsection \<open>Preparing the report\<close>

lemma getFilename_world:
  "\<exists>k. snd (getFilename e w opts) = w\<lparr>ticks := k\<rparr>"
proof (cases "timestamp opts \<noteq> JBool False \<and> timestamp opts \<noteq> JStr ''false''")
  case True
  then show ?thesis by (simp add: getFilename_snd timestampSuffix_world) blast
next
  case False
  then have "snd (getFilename e w opts) = w\<lparr>ticks := ticks w\<rparr>"
    by (simp add: getFilename_snd timestampSuffix_world)
  then show ?thesis by blast
qed

lemma getOptions_world: "\<exists>k. snd (getOptions e w opts) = w\<lparr>ticks := k\<rparr>"
proof -
  let ?m = "getMergedOptions e (case opts of None \<Rightarrow> Map.empty | Some x \<Rightarrow> x)"
  let ?w1 = "if truthy (saveJson ?m) then snd (getFilename e w ?m) else w"
  obtain k1 where k1: "?w1 = w\<lparr>ticks := k1\<rparr>"
  proof (cases "truthy (saveJson ?m)")
    case True
    then show ?thesis using getFilename_world [of e w ?m] that by auto
  next
    case False
    then have "?w1 = w\<lparr>ticks := ticks w\<rparr>" by simp
    then show ?thesis using that by blast
  qed
  obtain k2 where "snd (getFilename e ?w1 ?m) = ?w1\<lparr>ticks := k2\<rparr>"
    using getFilename_world [of e ?w1 ?m] by blast
  then have "snd (getOptions e w opts) = w\<lparr>ticks := k2\<rparr>"
    unfolding k1 by (simp add: getOptions_eq Let_def k1)
  then show ?thesis by blast
qed

lemma getOptions_htmlFile:
  "\<exists>base. htmlFile (fst (getOptions e w opts)) = Some (base @ CHR ''.'' # ''html'')"
  by (simp add: getOptions_eq Let_def)

lemma getOptions_jsonFile:
  "truthy (saveJson (fst (getOptions e w opts))) \<Longrightarrow>
   \<exists>base. jsonFile (fst (getOptions e w opts)) = Some (base @ CHR ''.'' # ''json'')"
  by (simp add: getOptions_eq Let_def)

lemma existsSync_ticks: "existsSync (w\<lparr>ticks := k\<rparr>) = existsSync w"
  by (rule ext) (simp add: existsSync_def)

lemma loadFile_ticks: "loadFile (w\<lparr>ticks := k\<rparr>) = loadFile w"
  by (rule ext) (simp add: loadFile_def)

lemma shouldCopyAssets_ticks: "shouldCopyAssets e (w\<lparr>ticks := k\<rparr>) dir = shouldCopyAssets e w dir"
  by (simp add: shouldCopyAssets_def existsSync_ticks loadFile_ticks)

lemma copySync_world:
  "copySync w src dest keep = (r, w') \<Longrightarrow>
   opened w' = opened w \<and> denied w' = denied w \<and> ticks w' = ticks w"
  by (auto simp: copySync_def split: if_splits)

lemma path_below_eq: "path_below d q = Some rel \<Longrightarrow> q = d @ ''/'' @ rel"
  by (auto simp: path_below_def prefix_def split: if_splits)

lemma copySync_finite:
  assumes "finite {q. existsSync w q}" "copySync w src dest keep = (r, w')"
  shows "finite {q. existsSync w' q}"
proof -
  let ?move = "\<lambda>p. dest @ ''/'' @ drop (length src + 1) p"
  have "existsSync w' q \<Longrightarrow>
      q \<in> {q. existsSync w q} \<union> insert dest (set (parent_dirs dest)) \<union> ?move ` {p. existsSync w p}" for q
  proof -
    assume q: "existsSync w' q"
    show ?thesis
    proof (cases "path_below dest q")
      case None
      with q assms(2) show ?thesis
        by (auto simp: copySync_def existsSync_def split: if_splits)
    next
      case (Some rel)
      then have eq: "q = dest @ ''/'' @ rel" by (rule path_below_eq)
      have "existsSync w q \<or> q = dest \<or> q \<in> set (parent_dirs dest) \<or>
          existsSync w (src @ ''/'' @ rel)"
        using q assms(2) Some
        by (auto simp: copySync_def existsSync_def split: if_splits option.splits)
      moreover have "?move (src @ ''/'' @ rel) = q" by (simp add: eq)
      ultimately show ?thesis by blast
    qed
  qed
  then have "{q. existsSync w' q} \<subseteq>
      {q. existsSync w q} \<union> insert dest (set (parent_dirs dest)) \<union> ?move ` {p. existsSync w p}"
    by blast
  moreover have "finite ({q. existsSync w q} \<union> insert dest (set (parent_dirs dest)) \<union>
      ?move ` {p. existsSync w p})"
    using assms(1) by simp
  ultimately show ?thesis by (rule finite_subset)
qed

text \<open>
  What \<^verbatim>\<open>prepare\<close> returns and leaves: the options are those of \<^verbatim>\<open>getOptions\<close>, the
  document is the doctype line and the rendering of the data, serialized when it is an
  object; the opener is not called, and files change only below the assets directory, and
  only when the assets are copied.
\<close>

lemma prepare_result:
  assumes "prepare e w data opts = (r, w1)"
  shows "opened w1 = opened w \<and> denied w1 = denied w \<and>
    (finite {q. existsSync w q} \<longrightarrow> finite {q. existsSync w1 q}) \<and>
    (\<forall>p. files w1 p \<noteq> files w p \<longrightarrow>
       path_below (assetsDir (fst (getOptions e w opts))) p \<noteq> None \<and>
       \<not> truthy (dev (fst (getOptions e w opts))) \<and>
       \<not> truthy (inlineAssets (fst (getOptions e w opts))) \<and>
       shouldCopyAssets e w (assetsDir (fst (getOptions e w opts)))) \<and>
    (\<forall>html ro. r = Inr (html, ro) \<longrightarrow>
       ro = fst (getOptions e w opts) \<and>
       (\<exists>styles scripts.
          html = ''<!doctype html>'' @ [CHR 0x0A] @
            renderHtml e (if typeof_object data then JsonStr (stringify e data 0) else data)
              ro styles scripts))"
proof -
  obtain ro wk where g0: "getOptions e w opts = (ro, wk)"
    by (cases "getOptions e w opts")
  obtain k where "wk = w\<lparr>ticks := k\<rparr>"
    using getOptions_world [of e w opts] g0 by auto
  with g0 have g: "getOptions e w opts = (ro, w\<lparr>ticks := k\<rparr>)"
    by simp
  have r: "\<forall>html ro'. r = Inr (html, ro') \<longrightarrow>
       ro' = ro \<and>
       (\<exists>styles scripts.
          html = ''<!doctype html>'' @ [CHR 0x0A] @
            renderHtml e (if typeof_object data then JsonStr (stringify e data 0) else data)
              ro' styles scripts)"
    using assms g
    by (auto simp: prepare_def Let_def split: sum.splits if_splits prod.splits)
  have "opened w1 = opened w \<and> denied w1 = denied w \<and>
    (finite {q. existsSync w q} \<longrightarrow> finite {q. existsSync w1 q}) \<and>
    (\<forall>p. files w1 p \<noteq> files w p \<longrightarrow>
       path_below (assetsDir ro) p \<noteq> None \<and> \<not> truthy (dev ro) \<and>
       \<not> truthy (inlineAssets ro) \<and> shouldCopyAssets e w (assetsDir ro))"
  proof (cases "\<not> truthy (dev ro) \<and> \<not> truthy (inlineAssets ro)")
    case True
    obtain r0 w0 where c: "copyAssets e (w\<lparr>ticks := k\<rparr>) ro = (r0, w0)"
      by (cases "copyAssets e (w\<lparr>ticks := k\<rparr>) ro")
    have w1: "w1 = w0"
      using assms g True c by (auto simp: prepare_def Let_def split: sum.splits)
    show ?thesis
    proof (cases "shouldCopyAssets e w (assetsDir ro)")
      case should: True
      then have cs: "copySync (w\<lparr>ticks := k\<rparr>) (distDir e) (assetsDir ro) notInline = (r0, w0)"
        using c by (simp add: copyAssets_def shouldCopyAssets_ticks)
      have "finite {q. existsSync w q} \<longrightarrow> finite {q. existsSync w0 q}"
        using copySync_finite [OF _ cs] by (simp add: existsSync_ticks)
      moreover have "\<forall>p. files w0 p \<noteq> files w p \<longrightarrow> path_below (assetsDir ro) p \<noteq> None"
        using copySync_files [OF cs] by (auto split: if_splits option.splits)
      ultimately show ?thesis
        using copySync_world [OF cs] True should by (simp add: w1)
    next
      case False
      then have "w0 = w\<lparr>ticks := k\<rparr>"
        using c by (simp add: copyAssets_def shouldCopyAssets_ticks)
      then show ?thesis by (simp add: w1 existsSync_ticks)
    qed
  next
    case False
    then have w1: "w1 = w\<lparr>ticks := k\<rparr>"
      using assms g by (auto simp: prepare_def Let_def split: sum.splits if_splits)
    show ?thesis by (simp add: w1 existsSync_ticks)
  qed
  with r show ?thesis by (simp add: g0)
qed

subsection \<open>The synchronous flow\<close>

lemma html_not_json: "base @ CHR ''.'' # ''html'' \<noteq> base' @ CHR ''.'' # ''json''"
proof
  assume "base @ CHR ''.'' # ''html'' = base' @ CHR ''.'' # ''json''"
  then have "last (base @ CHR ''.'' # ''html'') = last (base' @ CHR ''.'' # ''json'')" by simp
  then show False by simp
qed

lemma prepare_options:
  assumes "prepare e w data opts = (Inr (html, ro), w1)"
  shows "ro = fst (getOptions e w opts)"
  using prepare_result [OF assms] by blast

text \<open>
  C8 (as amended). \<^verbatim>\<open>createSync\<close> fails as \<^verbatim>\<open>prepare\<close> does when that throws. Otherwise it
  writes one report file, the resolved \<^verbatim>\<open>htmlFile\<close>, whatever the options \<^verbatim>\<open>overwrite\<close>
  and \<^verbatim>\<open>saveJson\<close> say: the file holds the document afterwards whether it existed or
  not, no name is made unique, every other file is as \<^verbatim>\<open>prepare\<close> left it (the JSON file
  among them), and the opener is called on the file exactly when \<^verbatim>\<open>autoOpen\<close> is truthy.
  Besides the report, \<^verbatim>\<open>prepare\<close> may have copied assets: it changes files only below
  \<^verbatim>\<open>assetsDir\<close>, and only when \<^verbatim>\<open>dev\<close> and \<^verbatim>\<open>inlineAssets\<close> are falsy and the assets there
  are not current.
\<close>

theorem createSync_writes_html_only:
  "(prepare e w data opts = (Inl err, w1) \<longrightarrow> createSync e w data opts = (Inl err, w1)) \<and>
   (prepare e w data opts = (Inr (html, ro), w1) \<longrightarrow>
      (\<exists>f w'. htmlFile ro = Some f \<and>
         createSync e w data opts = (if denied w1 f then Inl (WriteError f) else Inr (), w') \<and>
         (denied w1 f \<longrightarrow> w' = w1) \<and>
         (\<not> denied w1 f \<longrightarrow>
            files w' = (files w1)(f \<mapsto> html) \<and>
            opened w' = opened w @ (if truthy (autoOpen ro) then [f] else [])) \<and>
         (\<forall>p. p \<noteq> f \<longrightarrow> files w' p = files w1 p) \<and>
         (truthy (saveJson ro) \<longrightarrow> (\<exists>g. jsonFile ro = Some g \<and> g \<noteq> f \<and> files w' g = files w1 g))) \<and>
      (\<forall>p. files w1 p \<noteq> files w p \<longrightarrow>
         path_below (assetsDir ro) p \<noteq> None \<and> \<not> truthy (dev ro) \<and>
         \<not> truthy (inlineAssets ro) \<and> shouldCopyAssets e w (assetsDir ro)))"
proof -
  have 1: "prepare e w data opts = (Inl err, w1) \<longrightarrow> createSync e w data opts = (Inl err, w1)"
    by (simp add: createSync_def)
  have 2: "(\<exists>f w'. htmlFile ro = Some f \<and>
         createSync e w data opts = (if denied w1 f then Inl (WriteError f) else Inr (), w') \<and>
         (denied w1 f \<longrightarrow> w' = w1) \<and>
         (\<not> denied w1 f \<longrightarrow>
            files w' = (files w1)(f \<mapsto> html) \<and>
            opened w' = opened w @ (if truthy (autoOpen ro) then [f] else [])) \<and>
         (\<forall>p. p \<noteq> f \<longrightarrow> files w' p = files w1 p) \<and>
         (truthy (saveJson ro) \<longrightarrow> (\<exists>g. jsonFile ro = Some g \<and> g \<noteq> f \<and> files w' g = files w1 g))) \<and>
      (\<forall>p. files w1 p \<noteq> files w p \<longrightarrow>
         path_below (assetsDir ro) p \<noteq> None \<and> \<not> truthy (dev ro) \<and>
         \<not> truthy (inlineAssets ro) \<and> shouldCopyAssets e w (assetsDir ro))"
    if p: "prepare e w data opts = (Inr (html, ro), w1)"
  proof -
    have ro: "ro = fst (getOptions e w opts)" using p by (rule prepare_options)
    obtain base where f: "htmlFile ro = Some (base @ CHR ''.'' # ''html'')"
      unfolding ro using getOptions_htmlFile by blast
    let ?f = "base @ CHR ''.'' # ''html''"
    have frame: "opened w1 = opened w"
      "\<forall>p. files w1 p \<noteq> files w p \<longrightarrow>
         path_below (assetsDir ro) p \<noteq> None \<and> \<not> truthy (dev ro) \<and>
         \<not> truthy (inlineAssets ro) \<and> shouldCopyAssets e w (assetsDir ro)"
      using prepare_result [OF p] unfolding ro by blast+
    have json: "\<exists>g. jsonFile ro = Some g \<and> g \<noteq> ?f" if "truthy (saveJson ro)"
      using that getOptions_jsonFile [of e w opts] html_not_json [of base] unfolding ro
      by (metis (no_types))
    show ?thesis
    proof (cases "denied w1 ?f")
      case True
      then have "createSync e w data opts = (Inl (WriteError ?f), w1)"
        using p f by (simp add: createSync_def outputFile_denied)
      with True f frame(2) json show ?thesis by auto
    next
      case False
      define w' where "w' =
        (if truthy (autoOpen ro)
         then w1\<lparr>files := (files w1)(?f \<mapsto> html),
                  dirs := (\<lambda>q. dirs w1 q \<or> q \<in> set (parent_dirs ?f)),
                  opened := opened w1 @ [?f]\<rparr>
         else w1\<lparr>files := (files w1)(?f \<mapsto> html),
                  dirs := (\<lambda>q. dirs w1 q \<or> q \<in> set (parent_dirs ?f))\<rparr>)"
      have c: "createSync e w data opts = (Inr (), w')"
        using p f False by (simp add: createSync_def outputFile_ok w'_def)
      have w': "files w' = (files w1)(?f \<mapsto> html)"
        "opened w' = opened w @ (if truthy (autoOpen ro) then [?f] else [])"
        by (simp_all add: w'_def frame(1))
      from json w'(1) have "truthy (saveJson ro) \<longrightarrow>
          (\<exists>g. jsonFile ro = Some g \<and> g \<noteq> ?f \<and> files w' g = files w1 g)"
        by auto
      with False f c w' frame(2) show ?thesis by auto
    qed
  qed
  show ?thesis using 1 2 by blast
qed

subsection \<open>The asynchronous flow\<close>

lemma saveFile_named:
  assumes "saveFile w (Some (stem @ CHR ''.'' # ext)) d ow = Some (Inr name, w')"
    and "CHR ''.'' \<notin> set ext" "CHR ''{'' \<notin> set ext"
  shows "(\<exists>n. name = numbered stem ext n) \<and> (truthy ow \<longrightarrow> name = stem @ CHR ''.'' # ext) \<and>
    files w' = (files w)(name \<mapsto> d) \<and> opened w' = opened w \<and> denied w' = denied w"
proof -
  let ?parts = "\<lparr>p_head = stem, p_padLeft = ''_'', p_pad = 3, p_padRight = [], p_tail = CHR ''.'' # ext\<rparr>"
  have "CHR ''{'' \<notin> set (CHR ''.'' # ext)" using assms(3) by simp
  then have p: "parsePattern (insertUniquePlaceholder (stem @ CHR ''.'' # ext)) = Some ?parts"
    unfolding insertUniquePlaceholder_last_dot [OF assms(2)] by (rule parsePattern_inserted)
  have "\<exists>n. name = numbered stem ext n"
  proof (cases "truthy ow")
    case True
    with saveFile_result [OF assms(1)] have "name = numbered stem ext 0"
      by (simp add: numbered_def)
    then show ?thesis ..
  next
    case False
    with saveFile_result [OF assms(1)] p show ?thesis
      by (auto simp: uniqueName_numbered)
  qed
  with saveFile_result [OF assms(1)] show ?thesis by auto
qed

lemma saveFile_succeeds:
  assumes "CHR ''.'' \<notin> set ext" "CHR ''{'' \<notin> set ext"
    and "finite {p. existsSync w p}" "\<forall>p. \<not> denied w p"
  shows "\<exists>name w'. saveFile w (Some (stem @ CHR ''.'' # ext)) d ow = Some (Inr name, w') \<and>
    finite {p. existsSync w' p} \<and> (\<forall>p. \<not> denied w' p)"
proof -
  have step: "\<exists>name w'. s = Some (Inr name, w') \<and> finite {p. existsSync w' p} \<and> (\<forall>p. \<not> denied w' p)"
    if "s = Some (case outputFile w f d of
                    (Inl err, w') \<Rightarrow> (Inl err, w') | (Inr u, w') \<Rightarrow> (Inr f, w'))" for s f
  proof -
    obtain w' where o: "outputFile w f d = (Inr (), w')"
      using assms(4) by (simp add: outputFile_ok)
    then have "s = Some (Inr f, w')" using that by simp
    moreover have "finite {p. existsSync w' p}" using assms(3) o by (rule outputFile_finite)
    moreover have "\<forall>p. \<not> denied w' p" using outputFile_result [OF o] assms(4) by simp
    ultimately show ?thesis by blast
  qed
  show ?thesis
  proof (cases "truthy ow")
    case True
    then show ?thesis by (intro step) (simp add: saveFile_def)
  next
    case False
    from saveFile_numbered [OF assms(1,2) False assms(3), of stem d] show ?thesis
      using step by blast
  qed
qed

lemma numbered_html_json: "numbered s ''html'' n \<noteq> numbered s' ''json'' m"
proof
  assume eq: "numbered s ''html'' n = numbered s' ''json'' m"
  obtain a b where "numbered s ''html'' n = a @ CHR ''.'' # ''html''"
    "numbered s' ''json'' m = b @ CHR ''.'' # ''json''"
    using numbered_ends by blast
  with eq show False using html_not_json [of a b] by simp
qed

lemma arrayEntry_Inr: "map_sum id Some x = Inr y \<longleftrightarrow> (\<exists>f. x = Inr f \<and> y = Some f)"
  by (cases x) auto

lemma arrayEntry_Inl: "map_sum id Some x = Inl err \<longleftrightarrow> x = Inl err"
  by (cases x) auto

text \<open>The two saves and the opener behind a resolved \<^verbatim>\<open>create\<close>.\<close>

lemma create_resolved:
  assumes "prepare e w data opts = (Inr (html, ro), w1)"
    and "create e w data opts = Some (Inr (h, j), w')"
  shows "\<exists>w2 w3.
    (if saveHtml ro \<noteq> JBool False
     then \<exists>f. h = Some f \<and> saveFile w1 (htmlFile ro) html (overwrite ro) = Some (Inr f, w2)
     else h = None \<and> w2 = w1) \<and>
    (if truthy (saveJson ro)
     then \<exists>g. j = Some g \<and>
            saveFile w2 (jsonFile ro) (stringify e data 2) (overwrite ro) = Some (Inr g, w3)
     else j = None \<and> w3 = w2) \<and>
    files w' = files w3 \<and>
    opened w' = opened w3 @ (case h of Some f \<Rightarrow> (if truthy (autoOpen ro) then [f] else []) | None \<Rightarrow> [])"
  using assms
  by (auto simp: create_def arrayEntry_def promiseAll_def openFile_def Let_def
      arrayEntry_Inr arrayEntry_Inl
      split: if_splits option.splits sum.splits prod.splits)

lemma create_resolves:
  assumes "prepare e w data opts = (Inr (html, ro), w1)"
    and "finite {p. existsSync w1 p}" and "\<forall>p. \<not> denied w1 p" and "\<forall>f. opener_ok e f"
  shows "\<exists>h j w'. create e w data opts = Some (Inr (h, j), w')"
proof -
  have ro: "ro = fst (getOptions e w opts)" using assms(1) by (rule prepare_options)
  have ext: "CHR ''.'' \<notin> set ''html''" "CHR ''{'' \<notin> set ''html''"
    "CHR ''.'' \<notin> set ''json''" "CHR ''{'' \<notin> set ''json''"
    by simp_all
  obtain bh where hf: "htmlFile ro = Some (bh @ CHR ''.'' # ''html'')"
    unfolding ro using getOptions_htmlFile by blast
  \<comment> \<open>the HTML save\<close>
  obtain h w2 where H: "(if saveHtml ro \<noteq> JBool False
        then arrayEntry (saveFile w1 (htmlFile ro) html (overwrite ro))
        else Some (Inr None, w1)) = Some (Inr h, w2)"
    and w2: "finite {p. existsSync w2 p}" "\<forall>p. \<not> denied w2 p"
  proof (cases "saveHtml ro \<noteq> JBool False")
    case True
    from saveFile_succeeds [OF ext(1,2) assms(2,3), of bh html "overwrite ro"]
    obtain f w2 where "saveFile w1 (htmlFile ro) html (overwrite ro) = Some (Inr f, w2)"
      "finite {p. existsSync w2 p}" "\<forall>p. \<not> denied w2 p"
      unfolding hf by blast
    with True that [of "Some f" w2] show ?thesis by (simp add: arrayEntry_def)
  next
    case False
    with assms(2,3) that [of None w1] show ?thesis by simp
  qed
  \<comment> \<open>the JSON save\<close>
  obtain j w3 where J: "(if truthy (saveJson ro)
        then arrayEntry (saveFile w2 (jsonFile ro) (stringify e data 2) (overwrite ro))
        else Some (Inr None, w2)) = Some (Inr j, w3)"
  proof (cases "truthy (saveJson ro)")
    case True
    then obtain bj where jf: "jsonFile ro = Some (bj @ CHR ''.'' # ''json'')"
      unfolding ro using getOptions_jsonFile by blast
    from saveFile_succeeds [OF ext(3,4) w2, of bj "stringify e data 2" "overwrite ro"]
    obtain g w3 where "saveFile w2 (jsonFile ro) (stringify e data 2) (overwrite ro) = Some (Inr g, w3)"
      unfolding jf by blast
    with True that [of "Some g" w3] show ?thesis by (simp add: arrayEntry_def)
  next
    case False
    with that [of None w2] show ?thesis by simp
  qed
  \<comment> \<open>the opener\<close>
  show ?thesis
    unfolding create_def assms(1) using H J assms(4)
    by (cases h) (auto simp: promiseAll_def openFile_def)
qed

lemma create_saved:
  assumes p: "prepare e w data opts = (Inr (html, ro), w1)"
    and c: "create e w data opts = Some (Inr (h, j), w')"
  shows "(saveHtml ro = JBool False \<longrightarrow> h = None) \<and>
         (saveHtml ro \<noteq> JBool False \<longrightarrow>
            (\<exists>f. h = Some f \<and> files w' f = Some html \<and>
                 (truthy (overwrite ro) \<longrightarrow> htmlFile ro = Some f))) \<and>
         (\<not> truthy (saveJson ro) \<longrightarrow> j = None) \<and>
         (truthy (saveJson ro) \<longrightarrow>
            (\<exists>g. j = Some g \<and> files w' g = Some (stringify e data 2) \<and>
                 (truthy (overwrite ro) \<longrightarrow> jsonFile ro = Some g))) \<and>
         (\<forall>p. h \<noteq> Some p \<and> j \<noteq> Some p \<longrightarrow> files w' p = files w1 p) \<and>
         (\<forall>f g. h = Some f \<and> j = Some g \<longrightarrow> f \<noteq> g)"
proof -
  have ro: "ro = fst (getOptions e w opts)" using p by (rule prepare_options)
  have ext: "CHR ''.'' \<notin> set ''html''" "CHR ''{'' \<notin> set ''html''"
    "CHR ''.'' \<notin> set ''json''" "CHR ''{'' \<notin> set ''json''"
    by simp_all
  obtain bh where hf: "htmlFile ro = Some (bh @ CHR ''.'' # ''html'')"
    unfolding ro using getOptions_htmlFile by blast
  from create_resolved [OF p c] obtain w2 w3 where
    H: "if saveHtml ro \<noteq> JBool False
        then \<exists>f. h = Some f \<and> saveFile w1 (htmlFile ro) html (overwrite ro) = Some (Inr f, w2)
        else h = None \<and> w2 = w1"
    and J: "if truthy (saveJson ro)
        then \<exists>g. j = Some g \<and>
               saveFile w2 (jsonFile ro) (stringify e data 2) (overwrite ro) = Some (Inr g, w3)
        else j = None \<and> w3 = w2"
    and F: "files w' = files w3"
    by blast
  have html_step: "(saveHtml ro = JBool False \<longrightarrow> h = None \<and> files w2 = files w1) \<and>
    (saveHtml ro \<noteq> JBool False \<longrightarrow>
       (\<exists>f n. h = Some f \<and> f = numbered bh ''html'' n \<and> files w2 = (files w1)(f \<mapsto> html) \<and>
          (truthy (overwrite ro) \<longrightarrow> htmlFile ro = Some f)))"
  proof (cases "saveHtml ro \<noteq> JBool False")
    case True
    with H obtain f where f: "h = Some f"
      "saveFile w1 (Some (bh @ CHR ''.'' # ''html'')) html (overwrite ro) = Some (Inr f, w2)"
      unfolding hf by auto
    from saveFile_named [OF f(2) ext(1,2)] f(1) True hf show ?thesis by auto
  next
    case False
    with H show ?thesis by auto
  qed
  have json_step: "(\<not> truthy (saveJson ro) \<longrightarrow> j = None \<and> files w3 = files w2) \<and>
    (truthy (saveJson ro) \<longrightarrow>
       (\<exists>g bj m. j = Some g \<and> g = numbered bj ''json'' m \<and>
          files w3 = (files w2)(g \<mapsto> stringify e data 2) \<and>
          (truthy (overwrite ro) \<longrightarrow> jsonFile ro = Some g)))"
  proof (cases "truthy (saveJson ro)")
    case True
    then obtain bj where jf: "jsonFile ro = Some (bj @ CHR ''.'' # ''json'')"
      unfolding ro using getOptions_jsonFile by blast
    with J True obtain g where g: "j = Some g"
      "saveFile w2 (Some (bj @ CHR ''.'' # ''json'')) (stringify e data 2) (overwrite ro) =
         Some (Inr g, w3)"
      by auto
    from saveFile_named [OF g(2) ext(3,4)] g(1) True jf show ?thesis by auto
  next
    case False
    with J show ?thesis by auto
  qed
  show ?thesis
    using html_step json_step numbered_html_json unfolding F
    by (cases "saveHtml ro = JBool False"; cases "truthy (saveJson ro)")
      (auto split: if_splits)
qed

text \<open>
  C5. When \<^verbatim>\<open>prepare\<close> throws, \<^verbatim>\<open>create\<close> fails with that error. Otherwise, whenever the
  promise of \<^verbatim>\<open>create\<close> resolves, it resolves with the pair of an HTML result and a JSON
  result: the HTML result is null exactly when \<^verbatim>\<open>saveHtml\<close> is \<^verbatim>\<open>false\<close>, and else the
  name of the file that now holds the document (\<^verbatim>\<open>htmlFile\<close> itself when \<^verbatim>\<open>overwrite\<close> is
  truthy); the JSON result is null exactly when \<^verbatim>\<open>saveJson\<close> is falsy, and else the name of
  the file that now holds the JSON text (\<^verbatim>\<open>jsonFile\<close> itself when \<^verbatim>\<open>overwrite\<close> is truthy);
  no file but these two is written by the saves. The promise does resolve when the disk
  holds finitely many entries, no write is refused and the opener succeeds.
\<close>

theorem create_results:
  "(prepare e w data opts = (Inl err, w1) \<longrightarrow> create e w data opts = Some (Inl err, w1)) \<and>
   (prepare e w data opts = (Inr (html, ro), w1) \<longrightarrow>
      (\<forall>h j w'. create e w data opts = Some (Inr (h, j), w') \<longrightarrow>
         (saveHtml ro = JBool False \<longrightarrow> h = None) \<and>
         (saveHtml ro \<noteq> JBool False \<longrightarrow>
            (\<exists>f. h = Some f \<and> files w' f = Some html \<and>
                 (truthy (overwrite ro) \<longrightarrow> htmlFile ro = Some f))) \<and>
         (\<not> truthy (saveJson ro) \<longrightarrow> j = None) \<and>
         (truthy (saveJson ro) \<longrightarrow>
            (\<exists>g. j = Some g \<and> files w' g = Some (stringify e data 2) \<and>
                 (truthy (overwrite ro) \<longrightarrow> jsonFile ro = Some g))) \<and>
         (\<forall>p. h \<noteq> Some p \<and> j \<noteq> Some p \<longrightarrow> files w' p = files w1 p)) \<and>
      (finite {p. existsSync w1 p} \<and> (\<forall>p. \<not> denied w1 p) \<and> (\<forall>f. opener_ok e f) \<longrightarrow>
         (\<exists>h j w'. create e w data opts = Some (Inr (h, j), w'))))"
proof -
  have 1: "prepare e w data opts = (Inl err, w1) \<longrightarrow> create e w data opts = Some (Inl err, w1)"
    by (simp add: create_def)
  have 2: "(saveHtml ro = JBool False \<longrightarrow> h = None) \<and>
         (saveHtml ro \<noteq> JBool False \<longrightarrow>
            (\<exists>f. h = Some f \<and> files w' f = Some html \<and>
                 (truthy (overwrite ro) \<longrightarrow> htmlFile ro = Some f))) \<and>
         (\<not> truthy (saveJson ro) \<longrightarrow> j = None) \<and>
         (truthy (saveJson ro) \<longrightarrow>
            (\<exists>g. j = Some g \<and> files w' g = Some (stringify e data 2) \<and>
                 (truthy (overwrite ro) \<longrightarrow> jsonFile ro = Some g))) \<and>
         (\<forall>p. h \<noteq> Some p \<and> j \<noteq> Some p \<longrightarrow> files w' p = files w1 p)"
    if "prepare e w data opts = (Inr (html, ro), w1)"
      and "create e w data opts = Some (Inr (h, j), w')" for h j w'
    using create_saved [OF that] by blast
  have 3: "finite {p. existsSync w1 p} \<and> (\<forall>p. \<not> denied w1 p) \<and> (\<forall>f. opener_ok e f) \<longrightarrow>
         (\<exists>h j w'. create e w data opts = Some (Inr (h, j), w'))"
    if "prepare e w data opts = (Inr (html, ro), w1)"
    using create_resolves [OF that] by blast
  show ?thesis using 1 2 3 by blast
qed

text \<open>
  C6. The document that \<^verbatim>\<open>prepare\<close> renders is made from the data as \<^verbatim>\<open>prepare\<close>
  normalizes it: an object is replaced by its compact serialization
  \<^verbatim>\<open>JSON.stringify(data)\<close>. The JSON file does not hold that string: whenever \<^verbatim>\<open>create\<close>
  resolves with \<^verbatim>\<open>saveJson\<close> truthy, the file named by the JSON result holds
  \<^verbatim>\<open>JSON.stringify(data, null, 2)\<close> of the data as it was passed to \<^verbatim>\<open>create\<close>, and it is
  another file than the HTML one. With \<^verbatim>\<open>saveJson\<close> truthy the promise does resolve, with
  such a file, when the disk holds finitely many entries, no write is refused and the
  opener succeeds.
\<close>

theorem create_json_content:
  "prepare e w data opts = (Inr (html, ro), w1) \<longrightarrow>
     (\<exists>styles scripts.
        html = ''<!doctype html>'' @ [CHR 0x0A] @
          renderHtml e (if typeof_object data then JsonStr (stringify e data 0) else data)
            ro styles scripts) \<and>
     (\<forall>h j w'. create e w data opts = Some (Inr (h, j), w') \<and> truthy (saveJson ro) \<longrightarrow>
        (\<exists>g. j = Some g \<and> files w' g = Some (stringify e data 2) \<and> h \<noteq> Some g \<and>
             (truthy (overwrite ro) \<longrightarrow> jsonFile ro = Some g))) \<and>
     (truthy (saveJson ro) \<and> finite {p. existsSync w1 p} \<and> (\<forall>p. \<not> denied w1 p) \<and>
      (\<forall>f. opener_ok e f) \<longrightarrow>
        (\<exists>h g w'. create e w data opts = Some (Inr (h, Some g), w') \<and>
           files w' g = Some (stringify e data 2)))"
proof
  assume p: "prepare e w data opts = (Inr (html, ro), w1)"
  have 1: "\<exists>styles scripts.
        html = ''<!doctype html>'' @ [CHR 0x0A] @
          renderHtml e (if typeof_object data then JsonStr (stringify e data 0) else data)
            ro styles scripts"
    using prepare_result [OF p] by blast
  have 2: "\<exists>g. j = Some g \<and> files w' g = Some (stringify e data 2) \<and> h \<noteq> Some g \<and>
             (truthy (overwrite ro) \<longrightarrow> jsonFile ro = Some g)"
    if "create e w data opts = Some (Inr (h, j), w')" "truthy (saveJson ro)" for h j w'
    using create_saved [OF p that(1)] that(2) by (cases h) auto
  have 3: "\<exists>h g w'. create e w data opts = Some (Inr (h, Some g), w') \<and>
           files w' g = Some (stringify e data 2)"
    if "truthy (saveJson ro)" "finite {p. existsSync w1 p}" "\<forall>p. \<not> denied w1 p"
      "\<forall>f. opener_ok e f"
  proof -
    from create_resolves [OF p that(2-4)]
    obtain h j w' where c: "create e w data opts = Some (Inr (h, j), w')" by blast
    from 2 [OF c that(1)] c show ?thesis by blast
  qed
  show "(\<exists>styles scripts.
        html = ''<!doctype html>'' @ [CHR 0x0A] @
          renderHtml e (if typeof_object data then JsonStr (stringify e data 0) else data)
            ro styles scripts) \<and>
     (\<forall>h j w'. create e w data opts = Some (Inr (h, j), w') \<and> truthy (saveJson ro) \<longrightarrow>
        (\<exists>g. j = Some g \<and> files w' g = Some (stringify e data 2) \<and> h \<noteq> Some g \<and>
             (truthy (overwrite ro) \<longrightarrow> jsonFile ro = Some g))) \<and>
     (truthy (saveJson ro) \<and> finite {p. existsSync w1 p} \<and> (\<forall>p. \<not> denied w1 p) \<and>
      (\<forall>f. opener_ok e f) \<longrightarrow>
        (\<exists>h g w'. create e w data opts = Some (Inr (h, Some g), w') \<and>
           files w' g = Some (stringify e data 2)))"
    using 1 2 3 by blast
qed

subsection \<open>Runs in the sample environment\<close>

lemma copySync_sample:
  "copySync fresh_world ''/pkg/dist'' ''mochawesome-report/assets'' notInline = (Inr (), copied_world)"
proof -
  have "fst (copySync fresh_world ''/pkg/dist'' ''mochawesome-report/assets'' notInline) = Inr ()"
    by (rule copySync_ok) (simp_all add: fresh_world_fields)
  then show ?thesis by (simp add: copied_world_def prod_eq_iff)
qed

lemma copied_world_fields:
  "opened copied_world = []" "\<forall>p. \<not> denied copied_world p" "finite {p. existsSync copied_world p}"
  using copySync_world [OF copySync_sample] copySync_finite [OF fresh_world_finite copySync_sample]
  by (simp_all add: fresh_world_fields)

lemma copied_world_outside:
  "path_below ''mochawesome-report/assets'' q = None \<Longrightarrow> files copied_world q = dist_files q"
  using copySync_files [OF copySync_sample, of q] by (simp add: fresh_world_fields)

lemma copied_world_css:
  "files copied_world ''mochawesome-report/assets/app.css'' =
     Some ''/*! mochawesome-report-generator 3.1.1 */ body{}''"
proof -
  have "path_below ''mochawesome-report/assets'' ''mochawesome-report/assets/app.css'' = Some ''app.css''"
    using path_below_self [of "''app.css''" "''mochawesome-report/assets''"] by simp
  moreover have "copied ''/pkg/dist'' notInline ''app.css''"
    by (simp add: copied_notInline notInline_def inline_samples)
  moreover have "notInline ''/pkg/dist''"
    by (simp add: notInline_def sublist_Cons_right)
  ultimately show ?thesis
    using copySync_files [OF copySync_sample, of "''mochawesome-report/assets/app.css''"]
    by (simp add: fresh_world_fields dist_files_samples)
qed

lemma posix_resolve_sample:
  "posix_resolve [''/work'', ''mochawesome-report'', ''mochawesome''] =
     ''/work/mochawesome-report/mochawesome''"
  by (simp add: posix_path_defs)

lemma sample_getOptions:
  assumes "reportDir (default_getMergedOptions m) = ''mochawesome-report''"
    and "reportFilename (default_getMergedOptions m) = Some ''mochawesome''"
    and "timestamp (default_getMergedOptions m) = JBool False"
  shows "getOptions posix_env w (Some m) =
    ((default_getMergedOptions m)
       \<lparr>jsonFile := (if truthy (saveJson (default_getMergedOptions m))
                     then Some ''/work/mochawesome-report/mochawesome.json''
                     else jsonFile (default_getMergedOptions m)),
        htmlFile := Some ''/work/mochawesome-report/mochawesome.html''\<rparr>, w)"
proof -
  have f: "getFilename posix_env w' (default_getMergedOptions m) =
      (''/work/mochawesome-report/mochawesome'', w')" for w'
    using assms
    by (simp add: getFilename_def timestampSuffix_off stripFileExt_no_dot posix_env_fields
        posix_resolve_sample)
  show ?thesis
    by (simp add: getOptions_eq Let_def posix_env_fields f)
qed

lemma sample_prepare:
  assumes "reportDir (default_getMergedOptions m) = ''mochawesome-report''"
    and "reportFilename (default_getMergedOptions m) = Some ''mochawesome''"
    and "timestamp (default_getMergedOptions m) = JBool False"
    and "assetsDir (default_getMergedOptions m) = ''mochawesome-report/assets''"
    and "\<not> truthy (dev (default_getMergedOptions m))"
    and "\<not> truthy (inlineAssets (default_getMergedOptions m))"
  shows "\<exists>html. prepare posix_env fresh_world data (Some m) =
    (Inr (html, fst (getOptions posix_env fresh_world (Some m))), copied_world)"
proof -
  have s: "shouldCopyAssets posix_env fresh_world ''mochawesome-report/assets''"
    by (simp add: shouldCopyAssets_def existsSync_def fresh_world_fields dist_files_def)
  show ?thesis
    using assms(4-6) s
    by (simp add: prepare_def Let_def sample_getOptions [OF assms(1-3)] copyAssets_def
        distDir_posix copySync_sample)
qed

lemma default_fields:
  "reportDir (default_getMergedOptions m) = str_option m ''reportDir'' ''mochawesome-report''"
  "reportFilename (default_getMergedOptions m) = Some (str_option m ''reportFilename'' ''mochawesome'')"
  "timestamp (default_getMergedOptions m) = val_option m ''timestamp'' (JBool False)"
  "saveJson (default_getMergedOptions m) = val_option m ''saveJson'' (JBool False)"
  "saveHtml (default_getMergedOptions m) = val_option m ''saveHtml'' (JBool True)"
  "autoOpen (default_getMergedOptions m) = val_option m ''autoOpen'' (JBool False)"
  "overwrite (default_getMergedOptions m) = val_option m ''overwrite'' (JBool True)"
  "inlineAssets (default_getMergedOptions m) = val_option m ''inlineAssets'' (JBool False)"
  "assetsDir (default_getMergedOptions m) =
     str_option m ''assetsDir'' (str_option m ''reportDir'' ''mochawesome-report'' @ ''/assets'')"
  "dev (default_getMergedOptions m) = val_option m ''dev'' (JBool False)"
  "jsonFile (default_getMergedOptions m) = None"
  by (simp_all add: default_getMergedOptions_def)

lemmas option_eval = default_fields str_option_def val_option_def

theorem create_results_witness:
  "(\<exists>w'. create posix_env fresh_world (JsonObj [])
            (Some [''saveJson'' \<mapsto> JBool False, ''saveHtml'' \<mapsto> JBool True]) =
          Some (Inr (Some ''/work/mochawesome-report/mochawesome.html'', None), w')) \<and>
   (\<exists>w'. create posix_env fresh_world (JsonObj [])
            (Some [''saveJson'' \<mapsto> JBool True, ''saveHtml'' \<mapsto> JBool False]) =
          Some (Inr (None, Some ''/work/mochawesome-report/mochawesome.json''), w'))"
proof -
  have run: "\<exists>h j w'. create posix_env fresh_world (JsonObj []) (Some m) = Some (Inr (h, j), w') \<and>
      (saveHtml ro = JBool False \<longrightarrow> h = None) \<and>
      (saveHtml ro \<noteq> JBool False \<longrightarrow> htmlFile ro = h) \<and>
      (\<not> truthy (saveJson ro) \<longrightarrow> j = None) \<and>
      (truthy (saveJson ro) \<longrightarrow> jsonFile ro = j)"
    if p: "prepare posix_env fresh_world (JsonObj []) (Some m) = (Inr (html, ro), copied_world)"
      and ow: "truthy (overwrite ro)" for m html ro
  proof -
    note t = create_results [where e = posix_env and w = fresh_world and data = "JsonObj []"
        and opts = "Some m" and html = html and ro = ro and ?w1.0 = copied_world]
    from t p copied_world_fields(2,3)
    obtain h j w' where c: "create posix_env fresh_world (JsonObj []) (Some m) = Some (Inr (h, j), w')"
      by (auto simp: posix_env_fields)
    from t p c ow have "(saveHtml ro = JBool False \<longrightarrow> h = None) \<and>
      (saveHtml ro \<noteq> JBool False \<longrightarrow> htmlFile ro = h) \<and>
      (\<not> truthy (saveJson ro) \<longrightarrow> j = None) \<and>
      (truthy (saveJson ro) \<longrightarrow> jsonFile ro = j)"
      by blast
    with c show ?thesis by blast
  qed
  let ?a = "[''saveJson'' \<mapsto> JBool False, ''saveHtml'' \<mapsto> JBool True]"
  let ?b = "[''saveJson'' \<mapsto> JBool True, ''saveHtml'' \<mapsto> JBool False]"
  have ga: "getOptions posix_env fresh_world (Some ?a) =
      ((default_getMergedOptions ?a)\<lparr>jsonFile := None,
         htmlFile := Some ''/work/mochawesome-report/mochawesome.html''\<rparr>, fresh_world)"
    by (subst sample_getOptions) (simp_all add: option_eval)
  have gb: "getOptions posix_env fresh_world (Some ?b) =
      ((default_getMergedOptions ?b)\<lparr>jsonFile := Some ''/work/mochawesome-report/mochawesome.json'',
         htmlFile := Some ''/work/mochawesome-report/mochawesome.html''\<rparr>, fresh_world)"
    by (subst sample_getOptions) (simp_all add: option_eval)
  obtain ha where pa: "prepare posix_env fresh_world (JsonObj []) (Some ?a) =
      (Inr (ha, fst (getOptions posix_env fresh_world (Some ?a))), copied_world)"
    using sample_prepare [of ?a "JsonObj []"] by (auto simp: option_eval)
  obtain hb where pb: "prepare posix_env fresh_world (JsonObj []) (Some ?b) =
      (Inr (hb, fst (getOptions posix_env fresh_world (Some ?b))), copied_world)"
    using sample_prepare [of ?b "JsonObj []"] by (auto simp: option_eval)
  have a: "\<exists>w'. create posix_env fresh_world (JsonObj []) (Some ?a) =
          Some (Inr (Some ''/work/mochawesome-report/mochawesome.html'', None), w')"
    using run [OF pa] by (simp add: ga option_eval)
  have b: "\<exists>w'. create posix_env fresh_world (JsonObj []) (Some ?b) =
          Some (Inr (None, Some ''/work/mochawesome-report/mochawesome.json''), w')"
    using run [OF pb] by (simp add: gb option_eval)
  show ?thesis using a b by simp
qed

lemma json_text_sample:
  "json_text 2 0 (JsonObj [(''tests'', JsonArr [])]) =
     ''{'' @ [CHR 0x0A] @ ''  '' @ [CHR 0x22] @ ''tests'' @ [CHR 0x22] @ '': []'' @ [CHR 0x0A] @ ''}''"
  "json_text 0 0 (JsonObj [(''tests'', JsonArr [])]) =
     ''{'' @ [CHR 0x22] @ ''tests'' @ [CHR 0x22] @ '':[]}''"
  by (simp_all add: json_lines_def join_with_def quote_json_def numeral_2_eq_2)

theorem create_json_content_witness:
  "\<exists>h w'. create posix_env fresh_world (JsonObj [(''tests'', JsonArr [])])
             (Some [''saveJson'' \<mapsto> JBool True]) =
           Some (Inr (h, Some ''/work/mochawesome-report/mochawesome.json''), w') \<and>
     files w' ''/work/mochawesome-report/mochawesome.json'' =
       Some (''{'' @ [CHR 0x0A] @ ''  '' @ [CHR 0x22] @ ''tests'' @ [CHR 0x22] @ '': []'' @ [CHR 0x0A] @ ''}'')"
proof -
  let ?m = "[''saveJson'' \<mapsto> JBool True]"
  let ?data = "JsonObj [(''tests'', JsonArr [])]"
  let ?ro = "fst (getOptions posix_env fresh_world (Some ?m))"
  have g: "getOptions posix_env fresh_world (Some ?m) =
      ((default_getMergedOptions ?m)\<lparr>jsonFile := Some ''/work/mochawesome-report/mochawesome.json'',
         htmlFile := Some ''/work/mochawesome-report/mochawesome.html''\<rparr>, fresh_world)"
    by (subst sample_getOptions) (simp_all add: option_eval)
  have ro: "truthy (saveJson ?ro)" "truthy (overwrite ?ro)"
    "jsonFile ?ro = Some ''/work/mochawesome-report/mochawesome.json''"
    by (simp_all add: g option_eval)
  obtain html where p: "prepare posix_env fresh_world ?data (Some ?m) = (Inr (html, ?ro), copied_world)"
    using sample_prepare [of ?m ?data] by (auto simp: option_eval)
  have js: "stringify posix_env ?data 2 =
      ''{'' @ [CHR 0x0A] @ ''  '' @ [CHR 0x22] @ ''tests'' @ [CHR 0x22] @ '': []'' @ [CHR 0x0A] @ ''}''"
    by (simp only: posix_env_fields json_text_sample)
  note t = create_json_content [where e = posix_env and w = fresh_world and data = ?data
      and opts = "Some ?m" and html = html and ro = ?ro and ?w1.0 = copied_world]
  from t p ro(1) copied_world_fields(2,3)
  obtain h j w' where c: "create posix_env fresh_world ?data (Some ?m) = Some (Inr (h, j), w')"
    by (auto simp: posix_env_fields)
  from t p c ro(1,2) obtain gname where "j = Some gname"
    "files w' gname = Some (stringify posix_env ?data 2)" "jsonFile ?ro = Some gname"
    by blast
  then have "j = Some ''/work/mochawesome-report/mochawesome.json''"
    "files w' ''/work/mochawesome-report/mochawesome.json'' =
       Some (''{'' @ [CHR 0x0A] @ ''  '' @ [CHR 0x22] @ ''tests'' @ [CHR 0x22] @ '': []'' @ [CHR 0x0A] @ ''}'')"
    using ro(3) js by simp_all
  with c show ?thesis by blast
qed

theorem createSync_writes_html_only_witness:
  "fst (createSync posix_env fresh_world (JsonObj [])
          (Some [''autoOpen'' \<mapsto> JBool True, ''saveJson'' \<mapsto> JBool True,
                 ''overwrite'' \<mapsto> JBool False])) = Inr () \<and>
   opened (snd (createSync posix_env fresh_world (JsonObj [])
          (Some [''autoOpen'' \<mapsto> JBool True, ''saveJson'' \<mapsto> JBool True,
                 ''overwrite'' \<mapsto> JBool False]))) = [''/work/mochawesome-report/mochawesome.html''] \<and>
   files (snd (createSync posix_env fresh_world (JsonObj [])
          (Some [''autoOpen'' \<mapsto> JBool True, ''saveJson'' \<mapsto> JBool True,
                 ''overwrite'' \<mapsto> JBool False]))) ''/work/mochawesome-report/mochawesome.json'' = None \<and>
   files (snd (createSync posix_env fresh_world (JsonObj [])
          (Some [''autoOpen'' \<mapsto> JBool True, ''saveJson'' \<mapsto> JBool True,
                 ''overwrite'' \<mapsto> JBool False]))) ''/work/mochawesome-report/mochawesome.html'' \<noteq> None"
proof -
  let ?m = "[''autoOpen'' \<mapsto> JBool True, ''saveJson'' \<mapsto> JBool True, ''overwrite'' \<mapsto> JBool False]"
  let ?ro = "fst (getOptions posix_env fresh_world (Some ?m))"
  let ?f = "''/work/mochawesome-report/mochawesome.html''"
  let ?g = "''/work/mochawesome-report/mochawesome.json''"
  have g: "getOptions posix_env fresh_world (Some ?m) =
      ((default_getMergedOptions ?m)\<lparr>jsonFile := Some ?g, htmlFile := Some ?f\<rparr>, fresh_world)"
    by (subst sample_getOptions) (simp_all add: option_eval)
  have ro: "truthy (autoOpen ?ro)" "htmlFile ?ro = Some ?f"
    by (simp_all add: g option_eval)
  obtain html where p: "prepare posix_env fresh_world (JsonObj []) (Some ?m) =
      (Inr (html, ?ro), copied_world)"
    using sample_prepare [of ?m "JsonObj []"] by (auto simp: option_eval)
  note t = createSync_writes_html_only [where e = posix_env and w = fresh_world
      and data = "JsonObj []" and opts = "Some ?m" and html = html and ro = ?ro
      and ?w1.0 = copied_world]
  from t p ro(2) copied_world_fields(2) obtain w' where
    c: "createSync posix_env fresh_world (JsonObj []) (Some ?m) = (Inr (), w')"
    and w': "files w' = (files copied_world)(?f \<mapsto> html)"
      "opened w' = opened fresh_world @ (if truthy (autoOpen ?ro) then [?f] else [])"
    by auto
  have "files copied_world ?g = None"
    by (subst copied_world_outside) (simp_all add: path_below_def dist_files_def)
  with c w' ro(1) show ?thesis by (simp add: fresh_world_fields)
qed

text \<open>
  C8 as it was stated fails: it says that \<^verbatim>\<open>createSync\<close> writes exactly one file, the
  resolved \<^verbatim>\<open>htmlFile\<close>. Called with empty options on a disk without the assets
  directory, \<^verbatim>\<open>createSync\<close> succeeds and has also written the stylesheet
  \<^verbatim>\<open>mochawesome-report/assets/app.css\<close>, a file that was not there before and is not the
  report \<^verbatim>\<open>/work/mochawesome-report/mochawesome.html\<close>.
\<close>

theorem createSync_copies_assets_too:
  "fst (createSync posix_env fresh_world (JsonObj []) (Some Map.empty)) = Inr () \<and>
   htmlFile (fst (getOptions posix_env fresh_world (Some Map.empty))) =
     Some ''/work/mochawesome-report/mochawesome.html'' \<and>
   files fresh_world ''mochawesome-report/assets/app.css'' = None \<and>
   files (snd (createSync posix_env fresh_world (JsonObj []) (Some Map.empty)))
     ''mochawesome-report/assets/app.css'' =
     Some ''/*! mochawesome-report-generator 3.1.1 */ body{}''"
proof -
  let ?ro = "fst (getOptions posix_env fresh_world (Some Map.empty))"
  let ?f = "''/work/mochawesome-report/mochawesome.html''"
  have g: "getOptions posix_env fresh_world (Some Map.empty) =
      ((default_getMergedOptions Map.empty)\<lparr>jsonFile := None, htmlFile := Some ?f\<rparr>, fresh_world)"
    by (subst sample_getOptions) (simp_all add: option_eval)
  have ro: "htmlFile ?ro = Some ?f" "\<not> truthy (autoOpen ?ro)"
    by (simp_all add: g option_eval)
  obtain html where p: "prepare posix_env fresh_world (JsonObj []) (Some Map.empty) =
      (Inr (html, ?ro), copied_world)"
    using sample_prepare [of Map.empty "JsonObj []"] by (auto simp: option_eval)
  have c: "createSync posix_env fresh_world (JsonObj []) (Some Map.empty) =
      (Inr (), copied_world\<lparr>files := (files copied_world)(?f \<mapsto> html),
                 dirs := (\<lambda>q. dirs copied_world q \<or> q \<in> set (parent_dirs ?f))\<rparr>)"
    using ro copied_world_fields(2) by (simp add: createSync_def p outputFile_ok)
  show ?thesis
    by (simp add: c ro(1) copied_world_css fresh_world_fields dist_files_def)
qed

end
